theory Spec2Isabelle
  imports Main
begin

section \<open>The EPUB combiner: a model of \<open>combineEpubs\<close>\<close>

text \<open>
  The repository's core is the single JavaScript function \<open>combineEpubs(epubBuffers)\<close>.
  It opens every buffer with JSZip, reads \<open>META-INF/container.xml\<close> and the package
  document through xml2js, collects chapters, images, styles and fonts, rewrites the
  chapters' references, and hands a new JSZip object to \<open>generateAsync\<close>.

  JSZip, xml2js and uuid are libraries outside the repository. The model starts where
  their results enter the function: an input buffer is given by what \<open>JSZip.loadAsync\<close>
  and \<open>parseXML\<close> return for it, and the result is the set of entries, each with its
  payload and compression, that \<open>generateAsync\<close> is asked to write. JavaScript strings
  and byte buffers are both lists of characters here.
\<close>

subsection \<open>JavaScript string operations\<close>

text \<open>\<open>s.startsWith(p)\<close>.\<close>

definition startsWith :: "string \<Rightarrow> string \<Rightarrow> bool" where
  "startsWith s p = (take (length p) s = p)"

text \<open>
  \<open>p.substring(0, p.lastIndexOf('/') + 1)\<close>: everything up to and including the last
  slash, the empty string when there is none (\<open>lastIndexOf\<close> is then \<open>-1\<close>).
\<close>

definition upToLastSlash :: "string \<Rightarrow> string" where
  "upToLastSlash p = rev (dropWhile (\<lambda>c. c \<noteq> CHR ''/'') (rev p))"

text \<open>
  \<open>h.substring(h.lastIndexOf('/') + 1)\<close>: everything after the last slash, all of \<open>h\<close>
  when there is none.
\<close>

definition afterLastSlash :: "string \<Rightarrow> string" where
  "afterLastSlash h = rev (takeWhile (\<lambda>c. c \<noteq> CHR ''/'') (rev h))"

text \<open>
  A number inside a template literal, \<open>`${i}`\<close>: the decimal digits of a
  non-negative integer.
\<close>

definition digit :: "nat \<Rightarrow> char" where
  "digit d = ''0123456789'' ! d"

fun numberToString :: "nat \<Rightarrow> string" where
  "numberToString n =
     (if n < 10 then [digit n] else numberToString (n div 10) @ [digit (n mod 10)])"

declare numberToString.simps [simp del]

text \<open>
  The replacement text of \<open>String.prototype.replace\<close> (ECMAScript's GetSubstitution) for
  a pattern without capture groups: \<open>$$\<close> is a dollar sign, \<open>$&\<close> the matched text,
  \<open>$`\<close> the text in front of the match and \<open>$'\<close> the text after it; every other character,
  also a dollar sign followed by anything else, stands for itself.
\<close>

fun getSubstitution :: "string \<Rightarrow> string \<Rightarrow> string \<Rightarrow> string \<Rightarrow> string" where
  "getSubstitution matched front behind [] = []"
| "getSubstitution matched front behind [c] = [c]"
| "getSubstitution matched front behind (c # d # r) =
     (if c = CHR ''$'' \<and> d = CHR ''$'' then CHR ''$'' # getSubstitution matched front behind r
      else if c = CHR ''$'' \<and> d = CHR ''&'' then matched @ getSubstitution matched front behind r
      else if c = CHR ''$'' \<and> d = CHR 0x60 then front @ getSubstitution matched front behind r
      else if c = CHR ''$'' \<and> d = CHR 0x27 then behind @ getSubstitution matched front behind r
      else c # getSubstitution matched front behind (d # r))"

text \<open>
  \<open>s.replace(pat, rep)\<close> with a string pattern: only the first occurrence of \<open>pat\<close> is
  replaced. The argument \<open>front\<close> is the part of the string already passed.
\<close>

fun replaceFrom :: "string \<Rightarrow> string \<Rightarrow> string \<Rightarrow> string \<Rightarrow> string" where
  "replaceFrom pat rep front [] =
     (if pat = [] then front @ getSubstitution pat front [] rep else front)"
| "replaceFrom pat rep front (c # cs) =
     (if startsWith (c # cs) pat
      then front @ getSubstitution pat front (drop (length pat) (c # cs)) rep
             @ drop (length pat) (c # cs)
      else replaceFrom pat rep (front @ [c]) cs)"

definition replace :: "string \<Rightarrow> string \<Rightarrow> string \<Rightarrow> string" where
  "replace s pat rep = replaceFrom pat rep [] s"

text \<open>
  \<open>href.replace(/[.*+?^${}()|[\]\\]/g, '\\$&')\<close>: every one of the fourteen syntax
  characters of a regular expression gets a backslash in front of it.
\<close>

definition syntaxCharacters :: "char set" where
  "syntaxCharacters = set (''.*+?^${}()|[]'' @ [CHR 0x5C])"

definition escapeRegExp :: "string \<Rightarrow> string" where
  "escapeRegExp s =
     concat (map (\<lambda>c. if c \<in> syntaxCharacters then [CHR 0x5C, c] else [c]) s)"

text \<open>
  \<open>new RegExp(source, 'g')\<close> is modelled for the sources that are a sequence of plain
  characters and of syntax characters behind a backslash: such a pattern matches one
  string only, which \<open>literalOfSource\<close> returns. Every other source is outside the model
  (\<open>None\<close>).
\<close>

fun literalOfSource :: "string \<Rightarrow> string option" where
  "literalOfSource [] = Some []"
| "literalOfSource [c] = (if c \<in> syntaxCharacters then None else Some [c])"
| "literalOfSource (c # d # r) =
     (if c = CHR 0x5C
      then (if d \<in> syntaxCharacters then map_option ((#) d) (literalOfSource r) else None)
      else if c \<in> syntaxCharacters then None
      else map_option ((#) c) (literalOfSource (d # r)))"

text \<open>
  \<open>s.replace(re, rep)\<close> for a global regular expression that matches the literal \<open>lit\<close>:
  the matches are found from left to right, each search starting behind the previous
  match, and an empty match moves the search on by one character.
\<close>

function replaceAllFrom :: "string \<Rightarrow> string \<Rightarrow> string \<Rightarrow> string \<Rightarrow> string" where
  "replaceAllFrom lit rep front s =
     (if startsWith s lit
      then getSubstitution lit front (drop (length lit) s) rep @
        (if lit = []
         then (case s of [] \<Rightarrow> [] | c # cs \<Rightarrow> c # replaceAllFrom lit rep (front @ [c]) cs)
         else replaceAllFrom lit rep (front @ lit) (drop (length lit) s))
      else (case s of [] \<Rightarrow> [] | c # cs \<Rightarrow> c # replaceAllFrom lit rep (front @ [c]) cs))"
  by pat_completeness auto
termination
proof (relation "measure (\<lambda>(lit, rep, front, s). length s)")
  show "wf (measure (\<lambda>(lit, rep, front, s). length s))" by simp
next
  fix lit rep front s :: string and c cs
  assume "s = c # cs"
  then show "((lit, rep, front @ [c], cs), (lit, rep, front, s))
             \<in> measure (\<lambda>(lit, rep, front, s). length s)" by simp
next
  fix lit rep front s :: string
  assume "startsWith s lit" "lit \<noteq> []"
  then have "0 < length lit" "length lit \<le> length s"
    by (auto simp: startsWith_def dest: arg_cong [where f = length])
  then have "length (drop (length lit) s) < length s"
    unfolding length_drop by linarith
  then show "((lit, rep, front @ lit, drop (length lit) s), (lit, rep, front, s))
             \<in> measure (\<lambda>(lit, rep, front, s). length s)" by simp
next
  fix lit rep front s :: string and c cs
  assume "s = c # cs"
  then show "((lit, rep, front @ [c], cs), (lit, rep, front, s))
             \<in> measure (\<lambda>(lit, rep, front, s). length s)" by simp
qed

declare replaceAllFrom.simps [simp del]

definition replaceAll :: "string \<Rightarrow> string \<Rightarrow> string \<Rightarrow> string" where
  "replaceAll s lit rep = replaceAllFrom lit rep [] s"

subsection \<open>Input: what JSZip and xml2js return for a buffer\<close>

text \<open>
  The errors that reject the promise: \<open>TypeError\<close> is raised by JavaScript itself when a
  property of \<open>null\<close> or \<open>undefined\<close> is read or \<open>undefined\<close> is iterated; \<open>ZipError\<close>
  stands for the rejection of \<open>JSZip.loadAsync\<close> and \<open>XmlError\<close> for the error of
  \<open>parseXML\<close>. The function defines no error class of its own and catches nothing.
\<close>

datatype js_error = TypeError | ZipError | XmlError

text \<open>
  An XML entry of the archive: \<open>zip.file(name)\<close> is \<open>null\<close> (\<open>Absent\<close>), or its text is
  rejected by \<open>parseXML\<close> (\<open>Unparsable\<close>), or it is parsed.
\<close>

datatype 'a entry = Absent | Unparsable | Parsed 'a

text \<open>
  The attribute object \<open>item.$\<close> of a manifest item. The code tests \<open>media-type\<close> before
  using it; \<open>id\<close> and \<open>href\<close>, which the package format requires, are used as they
  come. Items and itemrefs without these attributes are outside the model.
\<close>

record item =
  item_id :: string
  item_href :: string
  media_type :: "string option"

text \<open>
  \<open>opfData.package.metadata[0]\<close>: for each of the three elements the text of its first
  occurrence, as the template literals render it, when the element is there.
\<close>

record opf_metadata =
  dc_title :: "string option"
  dc_creator :: "string option"
  dc_language :: "string option"

text \<open>
  The parsed package document. A part is \<open>None\<close> when the property path to it
  (\<open>opfData.package.metadata[0]\<close>, \<open>opfData.package.manifest[0].item\<close>,
  \<open>opfData.package.spine[0].itemref\<close>) ends in \<open>undefined\<close> or cannot be followed; the
  spine is the list of the \<open>idref\<close> attributes of its itemrefs.
\<close>

record package =
  metadata :: "opf_metadata option"
  manifest :: "item list option"
  spine :: "string list option"

text \<open>
  One loaded archive, as the function sees it: \<open>container\<close> is \<open>META-INF/container.xml\<close>
  with the value of \<open>containerData.container.rootfiles[0].rootfile[0].$['full-path']\<close>
  (\<open>None\<close> when that path gives \<open>undefined\<close> or cannot be followed), \<open>packageAt p\<close> is the
  entry \<open>p\<close> read as a package document, and \<open>files p\<close> is the content of the entry \<open>p\<close>
  read by \<open>async('string')\<close> or \<open>async('nodebuffer')\<close>.
\<close>

record archive =
  container :: "string option entry"
  packageAt :: "string \<Rightarrow> package entry"
  files :: "string \<rightharpoonup> string"

datatype buffer = NotZip | Zip archive

subsection \<open>The working set\<close>

text \<open>
  The objects pushed to \<open>allChapters\<close>, \<open>allImages\<close>, \<open>allStyles\<close> and \<open>allFonts\<close>. Chapters
  and styles are created without the property \<open>mediaType\<close>.
\<close>

record resource =
  ident :: string
  href :: string
  content :: string
  mediaType :: "string option"
  originalHref :: string
  bookIndex :: nat

record book_metadata =
  title :: string
  author :: string
  book :: nat

record combined_metadata =
  combinedTitle :: string
  combinedAuthor :: string
  combinedLanguage :: string
  combinedIdentifier :: string

record working_set =
  allChapters :: "resource list"
  allImages :: "resource list"
  allStyles :: "resource list"
  allFonts :: "resource list"
  bookMetadata :: "book_metadata list"
  combinedMetadata :: combined_metadata

text \<open>The argument is the value of \<open>uuidv4()\<close>.\<close>

definition initial :: "string \<Rightarrow> working_set" where
  "initial uuid =
     \<lparr>allChapters = [], allImages = [], allStyles = [], allFonts = [], bookMetadata = [],
      combinedMetadata = \<lparr>combinedTitle = ''Combined EPUB'', combinedAuthor = ''Multiple Authors'',
        combinedLanguage = ''en'', combinedIdentifier = uuid\<rparr>\<rparr>"

subsection \<open>Processing one book\<close>

text \<open>
  \<open>manifest.forEach(item => { manifestMap[item.$.id] = item.$; })\<close>: a later item wins.
  (What the object \<open>manifestMap\<close> inherits is never an item with a media type, so for
  the loop over the spine it is as good as absent.)
\<close>

definition manifestMap :: "item list \<Rightarrow> (string \<rightharpoonup> item)" where
  "manifestMap mf = foldl (\<lambda>m it. m(item_id it \<mapsto> it)) Map.empty mf"

text \<open>The body of the loop over the spine, for book \<open>i\<close> and one \<open>idref\<close>.\<close>

definition chapterOf ::
  "nat \<Rightarrow> string \<Rightarrow> (string \<rightharpoonup> string) \<Rightarrow> (string \<rightharpoonup> item) \<Rightarrow> string \<Rightarrow> resource option" where
  "chapterOf i baseDir fs mm itemId =
     (case mm itemId of
        None \<Rightarrow> None
      | Some manifestItem \<Rightarrow>
          if media_type manifestItem = Some ''application/xhtml+xml''
          then (case fs (baseDir @ item_href manifestItem) of
                  None \<Rightarrow> None
                | Some chapterContent \<Rightarrow>
                    let newChapterId = ''chapter_'' @ numberToString i @ ''_'' @ itemId;
                        newChapterHref = ''OEBPS/Text/'' @ newChapterId @ ''.xhtml''
                    in Some \<lparr>ident = newChapterId, href = newChapterHref,
                         content = chapterContent, mediaType = None,
                         originalHref = item_href manifestItem, bookIndex = i\<rparr>)
          else None)"

text \<open>
  The bodies of the three loops over the manifest. They differ in the test on the media
  type, in the prefix of the new id, in the directory, and in whether \<open>mediaType\<close> is kept.
\<close>

definition assetOf ::
  "string \<Rightarrow> string \<Rightarrow> bool \<Rightarrow> nat \<Rightarrow> string \<Rightarrow> (string \<rightharpoonup> string) \<Rightarrow> item \<Rightarrow> resource option" where
  "assetOf idPrefix dir keepType i baseDir fs it =
     (case fs (baseDir @ item_href it) of
        None \<Rightarrow> None
      | Some assetContent \<Rightarrow>
          let name = afterLastSlash (item_href it);
              newId = idPrefix @ numberToString i @ ''_'' @ item_id it;
              newHref = ''OEBPS/'' @ dir @ ''/'' @ newId @ ''_'' @ name
          in Some \<lparr>ident = newId, href = newHref, content = assetContent,
               mediaType = (if keepType then media_type it else None),
               originalHref = item_href it, bookIndex = i\<rparr>)"

definition isImage :: "item \<Rightarrow> bool" where
  "isImage it = (case media_type it of None \<Rightarrow> False | Some t \<Rightarrow> startsWith t ''image/'')"

definition isStyle :: "item \<Rightarrow> bool" where
  "isStyle it = (media_type it = Some ''text/css'')"

definition fontTypes :: "string list" where
  "fontTypes = [''application/font-woff'', ''application/vnd.ms-opentype'',
     ''application/x-font-ttf'', ''font/ttf'', ''font/otf'', ''font/woff'', ''font/woff2'']"

definition isFont :: "item \<Rightarrow> bool" where
  "isFont it = (case media_type it of None \<Rightarrow> False | Some t \<Rightarrow> t \<in> set fontTypes)"

definition imageOf :: "nat \<Rightarrow> string \<Rightarrow> (string \<rightharpoonup> string) \<Rightarrow> item \<Rightarrow> resource option" where
  "imageOf i baseDir fs it =
     (if isImage it then assetOf ''img_'' ''Images'' True i baseDir fs it else None)"

definition styleOf :: "nat \<Rightarrow> string \<Rightarrow> (string \<rightharpoonup> string) \<Rightarrow> item \<Rightarrow> resource option" where
  "styleOf i baseDir fs it =
     (if isStyle it then assetOf ''style_'' ''Styles'' False i baseDir fs it else None)"

definition fontOf :: "nat \<Rightarrow> string \<Rightarrow> (string \<rightharpoonup> string) \<Rightarrow> item \<Rightarrow> resource option" where
  "fontOf i baseDir fs it =
     (if isFont it then assetOf ''font_'' ''Fonts'' True i baseDir fs it else None)"

text \<open>A \<open>for\<close> loop whose body pushes at most one object to the list.\<close>

definition pushEach :: "('a \<Rightarrow> 'b option) \<Rightarrow> 'a list \<Rightarrow> 'b list \<Rightarrow> 'b list" where
  "pushEach body xs acc =
     foldl (\<lambda>acc x. case body x of None \<Rightarrow> acc | Some y \<Rightarrow> acc @ [y]) acc xs"

text \<open>
  What one turn of the loop over \<open>epubBuffers\<close> reads before it extracts anything:
  every \<open>await\<close> and every property read that can fail is a branch, in the order of the
  source. (The source reads \<open>manifest\<close> and \<open>spine\<close> after it has pushed the book's
  metadata; a failure there discards the working set all the same.)
\<close>

record book =
  baseDir :: string
  entries :: "string \<rightharpoonup> string"
  bookMeta :: opf_metadata
  bookManifest :: "item list"
  bookSpine :: "string list"

definition openBook :: "buffer \<Rightarrow> js_error + book" where
  "openBook epubBuffer =
     (case epubBuffer of
        NotZip \<Rightarrow> Inl ZipError
      | Zip z \<Rightarrow>
     (case container z of
        Absent \<Rightarrow> Inl TypeError
      | Unparsable \<Rightarrow> Inl XmlError
      | Parsed None \<Rightarrow> Inl TypeError
      | Parsed (Some contentOpfPath) \<Rightarrow>
     (case packageAt z contentOpfPath of
        Absent \<Rightarrow> Inl TypeError
      | Unparsable \<Rightarrow> Inl XmlError
      | Parsed opfData \<Rightarrow>
     (case metadata opfData of
        None \<Rightarrow> Inl TypeError
      | Some md \<Rightarrow>
     (case manifest opfData of
        None \<Rightarrow> Inl TypeError
      | Some mf \<Rightarrow>
     (case spine opfData of
        None \<Rightarrow> Inl TypeError
      | Some sp \<Rightarrow>
          Inr \<lparr>baseDir = upToLastSlash contentOpfPath, entries = files z,
               bookMeta = md, bookManifest = mf, bookSpine = sp\<rparr>))))))"

text \<open>The rest of the turn for book \<open>i\<close>: nothing in it can fail.\<close>

definition bookTitle :: "nat \<Rightarrow> opf_metadata \<Rightarrow> string" where
  "bookTitle i md = (case dc_title md of Some t \<Rightarrow> t | None \<Rightarrow> ''Book '' @ numberToString (i + 1))"

definition bookAuthor :: "opf_metadata \<Rightarrow> string" where
  "bookAuthor md = (case dc_creator md of Some a \<Rightarrow> a | None \<Rightarrow> ''Unknown Author'')"

definition fromFirstBook :: "opf_metadata \<Rightarrow> combined_metadata \<Rightarrow> combined_metadata" where
  "fromFirstBook md cm =
     (let cm1 = (case dc_title md of Some t \<Rightarrow> cm\<lparr>combinedTitle := t\<rparr> | None \<Rightarrow> cm);
          cm2 = (case dc_creator md of Some a \<Rightarrow> cm1\<lparr>combinedAuthor := a\<rparr> | None \<Rightarrow> cm1)
      in (case dc_language md of Some l \<Rightarrow> cm2\<lparr>combinedLanguage := l\<rparr> | None \<Rightarrow> cm2))"

definition extractBook :: "nat \<Rightarrow> book \<Rightarrow> working_set \<Rightarrow> working_set" where
  "extractBook i b w =
     \<lparr>allChapters =
        pushEach (chapterOf i (baseDir b) (entries b) (manifestMap (bookManifest b)))
          (bookSpine b) (allChapters w),
      allImages = pushEach (imageOf i (baseDir b) (entries b)) (bookManifest b) (allImages w),
      allStyles = pushEach (styleOf i (baseDir b) (entries b)) (bookManifest b) (allStyles w),
      allFonts = pushEach (fontOf i (baseDir b) (entries b)) (bookManifest b) (allFonts w),
      bookMetadata =
        bookMetadata w
          @ [\<lparr>title = bookTitle i (bookMeta b), author = bookAuthor (bookMeta b), book = i\<rparr>],
      combinedMetadata =
        (if i = 0 then fromFirstBook (bookMeta b) (combinedMetadata w)
         else combinedMetadata w)\<rparr>"

definition processBook :: "nat \<Rightarrow> buffer \<Rightarrow> working_set \<Rightarrow> js_error + working_set" where
  "processBook i epubBuffer w =
     (case openBook epubBuffer of
        Inl e \<Rightarrow> Inl e
      | Inr b \<Rightarrow> Inr (extractBook i b w))"

text \<open>The loop \<open>for (let i = 0; i < epubBuffers.length; i++)\<close>, from index \<open>i\<close> on.\<close>

fun processBooks :: "nat \<Rightarrow> buffer list \<Rightarrow> working_set \<Rightarrow> js_error + working_set" where
  "processBooks i [] w = Inr w"
| "processBooks i (b # bs) w =
     (case processBook i b w of Inl e \<Rightarrow> Inl e | Inr w' \<Rightarrow> processBooks (Suc i) bs w')"

subsection \<open>Rewriting the references of the chapters\<close>

text \<open>
  The body of the loop over \<open>allImages\<close>, and of the loop over \<open>allStyles\<close>, which is the
  same text with \<open>style\<close> for \<open>image\<close>. The pattern is built from the escaped
  \<open>originalHref\<close>; \<open>literalOfSource\<close> reads it back.
\<close>

definition rewriteStep :: "resource \<Rightarrow> string \<Rightarrow> resource \<Rightarrow> string" where
  "rewriteStep chapter updatedContent asset =
     (if bookIndex asset = bookIndex chapter
      then (let relativePath = ''../'' @ replace (href asset) ''OEBPS/'' [];
                escapedHref = escapeRegExp (originalHref asset)
            in case literalOfSource escapedHref of
                 Some lit \<Rightarrow> replaceAll updatedContent lit relativePath
               | None \<Rightarrow> updatedContent)
      else updatedContent)"

text \<open>
  The body of the loop over \<open>allChapters\<close>: the images, then the styles. There is no loop
  over \<open>allFonts\<close>.
\<close>

definition rewriteChapter :: "resource list \<Rightarrow> resource list \<Rightarrow> resource \<Rightarrow> resource" where
  "rewriteChapter images styles chapter =
     chapter\<lparr>content :=
       foldl (rewriteStep chapter) (foldl (rewriteStep chapter) (content chapter) images) styles\<rparr>"

definition rewriteReferences :: "working_set \<Rightarrow> working_set" where
  "rewriteReferences w =
     w\<lparr>allChapters := map (rewriteChapter (allImages w) (allStyles w)) (allChapters w)\<rparr>"

subsection \<open>The table of contents page\<close>

definition containerXML :: string where
  \<open>containerXML =
     ''<?xml version="1.0" encoding="UTF-8"?>'' @ ''\<newline>'' @
     ''<container version="1.0" xmlns="urn:oasis:names:tc:opendocument:xmlns:container">'' @ ''\<newline>'' @
     ''  <rootfiles>'' @ ''\<newline>'' @
     ''    <rootfile full-path="OEBPS/content.opf" media-type="application/oebps-package+xml"/>'' @ ''\<newline>'' @
     ''  </rootfiles>'' @ ''\<newline>'' @
     ''</container>''\<close>

definition tocHead :: string where
  \<open>tocHead = concat (map (\<lambda>l. l @ ''\<newline>'')
    [''<?xml version="1.0" encoding="UTF-8"?>'',
     ''<!DOCTYPE html PUBLIC "-//W3C//DTD XHTML 1.1//EN" "http://www.w3.org/TR/xhtml11/DTD/xhtml11.dtd">'',
     ''<html xmlns="http://www.w3.org/1999/xhtml">'',
     ''<head>'',
     ''  <title>Table of Contents</title>'',
     ''  <style type="text/css">'',
     ''    body {'',
     ''      font-family: Georgia, serif;'',
     ''      margin: 2em;'',
     ''      line-height: 1.6;'',
     ''    }'',
     ''    h1 {'',
     ''      text-align: center;'',
     ''      color: #333;'',
     ''      border-bottom: 2px solid #333;'',
     ''      padding-bottom: 0.5em;'',
     ''      margin-bottom: 1.5em;'',
     ''    }'',
     ''    .toc-entry {'',
     ''      margin: 1.5em 0;'',
     ''      padding: 1em;'',
     ''      background-color: #f9f9f9;'',
     ''      border-left: 4px solid #333;'',
     ''    }'',
     ''    .toc-entry:hover {'',
     ''      background-color: #f0f0f0;'',
     ''    }'',
     ''    .book-title {'',
     ''      font-size: 1.2em;'',
     ''      font-weight: bold;'',
     ''      margin-bottom: 0.3em;'',
     ''    }'',
     ''    .book-title a {'',
     ''      color: #0066cc;'',
     ''      text-decoration: none;'',
     ''    }'',
     ''    .book-title a:hover {'',
     ''      text-decoration: underline;'',
     ''    }'',
     ''    .book-author {'',
     ''      font-size: 0.9em;'',
     ''      color: #666;'',
     ''      font-style: italic;'',
     ''    }'',
     ''    .book-number {'',
     ''      color: #999;'',
     ''      font-size: 0.9em;'',
     ''    }'',
     ''  </style>'',
     ''</head>'',
     ''<body>'',
     ''  <h1>Table of Contents</h1>'',
     ''  <div class="toc-list">''])\<close>

definition tocTail :: string where
  \<open>tocTail = ''  </div>'' @ ''\<newline>'' @ ''</body>'' @ ''\<newline>'' @ ''</html>''\<close>

text \<open>
  \<open>bookFirstChapters\<close>: the first chapter of every book index, in the order of
  \<open>allChapters\<close>. A chapter object is never falsy, so an index is set once.
\<close>

definition bookFirstChapters :: "resource list \<Rightarrow> (nat \<rightharpoonup> resource)" where
  "bookFirstChapters chapters =
     foldl (\<lambda>m chapter. case m (bookIndex chapter) of
                            None \<Rightarrow> m(bookIndex chapter \<mapsto> chapter)
                          | Some c \<Rightarrow> m)
       Map.empty chapters"

definition tocEntry :: "book_metadata \<Rightarrow> resource \<Rightarrow> string" where
  \<open>tocEntry b firstChapter =
     (let relativeLink = replace (href firstChapter) ''OEBPS/'' [] in
      ''    <div class="toc-entry">'' @ ''\<newline>'' @
      ''      <div class="book-number">Book '' @ numberToString (book b + 1) @ ''</div>'' @ ''\<newline>'' @
      ''      <div class="book-title"><a href="'' @ relativeLink @ ''">'' @ title b @ ''</a></div>'' @ ''\<newline>'' @
      ''      <div class="book-author">by '' @ author b @ ''</div>'' @ ''\<newline>'' @
      ''    </div>'' @ ''\<newline>'')\<close>

text \<open>The entries that the loop over \<open>bookMetadata\<close> appends to \<open>tocHTML\<close>.\<close>

definition tocEntries :: "working_set \<Rightarrow> string list" where
  "tocEntries w =
     pushEach (\<lambda>b. map_option (tocEntry b) (bookFirstChapters (allChapters w) (book b)))
       (bookMetadata w) []"

definition tocHTML :: "working_set \<Rightarrow> string" where
  "tocHTML w = tocHead @ concat (tocEntries w) @ tocTail"

subsection \<open>The package document, the navigation document and the archive\<close>

text \<open>
  The object given to the XML builder for \<open>content.opf\<close>. The manifest items have the
  shape of the attribute objects of the input; the fixed attributes (\<open>version="2.0"\<close>,
  \<open>unique-identifier="bookid"\<close>, the namespaces, \<open>toc="ncx"\<close> on the spine) are left out.
\<close>

record opf_content =
  opfMetadata :: combined_metadata
  manifestItems :: "item list"
  spineItems :: "string list"

record nav_point =
  navId :: string
  playOrder :: string
  navLabel :: string
  src :: string

record ncx_content =
  uid :: string
  docTitle :: string
  navPoints :: "nav_point list"

definition manifestItemOf :: "string option \<Rightarrow> resource \<Rightarrow> item" where
  "manifestItemOf t r =
     \<lparr>item_id = ident r, item_href = replace (href r) ''OEBPS/'' [], media_type = t\<rparr>"

definition opfContent :: "working_set \<Rightarrow> opf_content" where
  "opfContent w =
     \<lparr>opfMetadata = combinedMetadata w,
      manifestItems =
        [\<lparr>item_id = ''toc-page'', item_href = ''Text/toc.xhtml'',
          media_type = Some ''application/xhtml+xml''\<rparr>]
        @ map (manifestItemOf (Some ''application/xhtml+xml'')) (allChapters w)
        @ map (\<lambda>image. manifestItemOf (mediaType image) image) (allImages w)
        @ map (manifestItemOf (Some ''text/css'')) (allStyles w)
        @ map (\<lambda>font. manifestItemOf (mediaType font) font) (allFonts w)
        @ [\<lparr>item_id = ''ncx'', item_href = ''toc.ncx'',
            media_type = Some ''application/x-dtbncx+xml''\<rparr>],
      spineItems = ''toc-page'' # map ident (allChapters w)\<rparr>"

definition navPointOf :: "nat \<times> resource \<Rightarrow> nav_point" where
  "navPointOf p =
     (case p of (index, chapter) \<Rightarrow>
        \<lparr>navId = ''navPoint-'' @ numberToString (index + 1),
         playOrder = numberToString (index + 1),
         navLabel = ''Chapter '' @ numberToString (index + 1),
         src = replace (href chapter) ''OEBPS/'' []\<rparr>)"

definition ncxContent :: "working_set \<Rightarrow> ncx_content" where
  "ncxContent w =
     \<lparr>uid = combinedIdentifier (combinedMetadata w),
      docTitle = combinedTitle (combinedMetadata w),
      navPoints = map navPointOf (enumerate 0 (allChapters w))\<rparr>"

text \<open>
  What \<open>outputZip.file(name, data, options)\<close> stores: text or bytes, or the object that
  the builder serialises, and the compression named in the options of that call, if any.
  A second call with the same name replaces the entry.
\<close>

datatype payload = Data string | PackageDocument opf_content | NavigationDocument ncx_content

datatype compression = STORE | DEFLATE

record zip_object =
  payload :: payload
  fileCompression :: "compression option"

definition zipFile ::
  "string \<Rightarrow> payload \<Rightarrow> compression option \<Rightarrow> (string \<rightharpoonup> zip_object) \<Rightarrow> (string \<rightharpoonup> zip_object)" where
  "zipFile name d c z = z(name \<mapsto> \<lparr>payload = d, fileCompression = c\<rparr>)"

definition fileEach :: "resource list \<Rightarrow> (string \<rightharpoonup> zip_object) \<Rightarrow> (string \<rightharpoonup> zip_object)" where
  "fileEach rs z0 = foldl (\<lambda>z r. zipFile (href r) (Data (content r)) None z) z0 rs"

definition outputZip :: "working_set \<Rightarrow> (string \<rightharpoonup> zip_object)" where
  "outputZip w =
     zipFile ''OEBPS/toc.ncx'' (NavigationDocument (ncxContent w)) None
     (zipFile ''OEBPS/content.opf'' (PackageDocument (opfContent w)) None
     (fileEach (allFonts w)
     (fileEach (allStyles w)
     (fileEach (allImages w)
     (fileEach (allChapters w)
     (zipFile ''OEBPS/Text/toc.xhtml'' (Data (tocHTML w)) None
     (zipFile ''META-INF/container.xml'' (Data containerXML) None
     (zipFile ''mimetype'' (Data ''application/epub+zip'') (Some STORE)
      Map.empty))))))))"

text \<open>
  \<open>generateAsync({compression: c, ...})\<close>: JSZip writes an entry with the compression of
  its own \<open>file\<close> call when that call named one, and with \<open>c\<close> otherwise.
\<close>

definition generateAsync ::
  "compression \<Rightarrow> (string \<rightharpoonup> zip_object) \<Rightarrow> (string \<rightharpoonup> payload \<times> compression)" where
  "generateAsync c z =
     (\<lambda>name. map_option
        (\<lambda>f. (payload f, (case fileCompression f of Some own \<Rightarrow> own | None \<Rightarrow> c)))
        (z name))"

subsection \<open>The whole function\<close>

text \<open>The working set after the loop over the buffers and the rewriting of the chapters.\<close>

definition merged :: "string \<Rightarrow> buffer list \<Rightarrow> js_error + working_set" where
  "merged uuid epubBuffers =
     (case processBooks 0 epubBuffers (initial uuid) of
        Inl e \<Rightarrow> Inl e
      | Inr w \<Rightarrow> Inr (rewriteReferences w))"

definition combineEpubs ::
  "string \<Rightarrow> buffer list \<Rightarrow> js_error + (string \<rightharpoonup> payload \<times> compression)" where
  "combineEpubs uuid epubBuffers =
     (case merged uuid epubBuffers of
        Inl e \<Rightarrow> Inl e
      | Inr w \<Rightarrow> Inr (generateAsync DEFLATE (outputZip w)))"

section \<open>Notions used in the statements\<close>

subsection \<open>The loops as list functions\<close>

text \<open>What book \<open>i\<close> contributes to each of the four lists.\<close>

definition chaptersOf :: "nat \<Rightarrow> book \<Rightarrow> resource list" where
  "chaptersOf i b =
     List.map_filter (chapterOf i (baseDir b) (entries b) (manifestMap (bookManifest b)))
       (bookSpine b)"

definition imagesOf :: "nat \<Rightarrow> book \<Rightarrow> resource list" where
  "imagesOf i b = List.map_filter (imageOf i (baseDir b) (entries b)) (bookManifest b)"

definition stylesOf :: "nat \<Rightarrow> book \<Rightarrow> resource list" where
  "stylesOf i b = List.map_filter (styleOf i (baseDir b) (entries b)) (bookManifest b)"

definition fontsOf :: "nat \<Rightarrow> book \<Rightarrow> resource list" where
  "fontsOf i b = List.map_filter (fontOf i (baseDir b) (entries b)) (bookManifest b)"

text \<open>The books with their indices, counted from \<open>i\<close>, and a list built book by book.\<close>

definition perBook :: "(nat \<Rightarrow> book \<Rightarrow> 'a list) \<Rightarrow> nat \<Rightarrow> book list \<Rightarrow> 'a list" where
  "perBook f i books = concat (map (\<lambda>(j, b). f j b) (enumerate i books))"

fun extractBooks :: "nat \<Rightarrow> book list \<Rightarrow> working_set \<Rightarrow> working_set" where
  "extractBooks i [] w = w"
| "extractBooks i (b # books) w = extractBooks (Suc i) books (extractBook i b w)"

text \<open>The working set after the loop over the buffers, when every buffer opens.\<close>

definition extracted :: "string \<Rightarrow> book list \<Rightarrow> working_set" where
  "extracted uuid books = extractBooks 0 books (initial uuid)"

text \<open>A resource whose target path lies under the content root \<open>OEBPS/\<close>.\<close>

definition inContentRoot :: "resource \<Rightarrow> bool" where
  "inContentRoot r = startsWith (href r) ''OEBPS/''"


subsection \<open>Example inputs\<close>

text \<open>
  An archive whose container names the package document at \<open>path\<close>, with that package
  document and the listed entries.
\<close>

definition epub :: "string \<Rightarrow> package \<Rightarrow> (string \<times> string) list \<Rightarrow> buffer" where
  "epub path pkg fs =
     Zip \<lparr>container = Parsed (Some path),
          packageAt = (\<lambda>p. if p = path then Parsed pkg else Absent),
          files = map_of fs\<rparr>"

text \<open>
  Book Alpha has no \<open>dc:creator\<close>; its spine names an id that is not in the manifest
  (\<open>ghost\<close>) and a chapter whose file is not in the archive (\<open>c2\<close>). Book Beta has no
  \<open>dc:title\<close> and sits at the root of its archive. Both have an image \<open>pic.jpg\<close>.
\<close>

definition alphaMeta :: opf_metadata where
  "alphaMeta = \<lparr>dc_title = Some ''Alpha'', dc_creator = None, dc_language = Some ''fr''\<rparr>"

definition alphaManifest :: "item list" where
  "alphaManifest =
     [\<lparr>item_id = ''c1'', item_href = ''ch1.xhtml'', media_type = Some ''application/xhtml+xml''\<rparr>,
      \<lparr>item_id = ''c2'', item_href = ''ch2.xhtml'', media_type = Some ''application/xhtml+xml''\<rparr>,
      \<lparr>item_id = ''p'', item_href = ''pic.jpg'', media_type = Some ''image/jpeg''\<rparr>,
      \<lparr>item_id = ''s'', item_href = ''style.css'', media_type = Some ''text/css''\<rparr>]"

definition alphaSpine :: "string list" where
  "alphaSpine = [''c1'', ''ghost'', ''c2'']"

definition alphaFiles :: "(string \<times> string) list" where
  \<open>alphaFiles =
     [(''OEBPS/ch1.xhtml'', ''<link href="style.css"/><img src="pic.jpg"/>''),
      (''OEBPS/pic.jpg'', ''JPEG-A''),
      (''OEBPS/style.css'', ''p {}'')]\<close>

definition alpha :: buffer where
  "alpha = epub ''OEBPS/content.opf''
     \<lparr>metadata = Some alphaMeta, manifest = Some alphaManifest, spine = Some alphaSpine\<rparr>
     alphaFiles"

definition betaMeta :: opf_metadata where
  "betaMeta = \<lparr>dc_title = None, dc_creator = Some ''B. Author'', dc_language = Some ''de''\<rparr>"

definition betaManifest :: "item list" where
  "betaManifest =
     [\<lparr>item_id = ''c1'', item_href = ''ch1.xhtml'', media_type = Some ''application/xhtml+xml''\<rparr>,
      \<lparr>item_id = ''p'', item_href = ''pic.jpg'', media_type = Some ''image/jpeg''\<rparr>]"

definition betaSpine :: "string list" where
  "betaSpine = [''c1'']"

definition betaFiles :: "(string \<times> string) list" where
  \<open>betaFiles =
     [(''ch1.xhtml'', ''<img src="pic.jpg"/>''),
      (''pic.jpg'', ''JPEG-B'')]\<close>

definition beta :: buffer where
  "beta = epub ''content.opf''
     \<lparr>metadata = Some betaMeta, manifest = Some betaManifest, spine = Some betaSpine\<rparr>
     betaFiles"

text \<open>
  Book Alpha without its \<open>META-INF/container.xml\<close>, and Book Alpha whose container names a
  package document that is not in the archive.
\<close>

definition withoutContainer :: buffer where
  "withoutContainer =
     Zip \<lparr>container = Absent,
          packageAt = (\<lambda>p. if p = ''OEBPS/content.opf''
            then Parsed \<lparr>metadata = Some alphaMeta, manifest = Some alphaManifest,
                   spine = Some alphaSpine\<rparr>
            else Absent),
          files = map_of alphaFiles\<rparr>"

definition withoutPackage :: buffer where
  "withoutPackage =
     Zip \<lparr>container = Parsed (Some ''OEBPS/content.opf''),
          packageAt = (\<lambda>p. Absent),
          files = map_of alphaFiles\<rparr>"

text \<open>The error kinds that the specification names.\<close>

datatype error_kind =
  MalformedArchiveError | InvalidContainerError | InvalidPackageDocumentError
  | MissingEntryError | ArchiveWriteError

subsection \<open>Chapters of one book\<close>

text \<open>
  A spine entry yields a chapter when its idref is in the manifest map, the item found
  has the XHTML media type, and the archive has an entry at the item's path.
\<close>

definition resolvable :: "book \<Rightarrow> string \<Rightarrow> bool" where
  "resolvable b itemId =
     (case manifestMap (bookManifest b) itemId of
        None \<Rightarrow> False
      | Some it \<Rightarrow> media_type it = Some ''application/xhtml+xml''
          \<and> entries b (baseDir b @ item_href it) \<noteq> None)"

definition chapterId :: "nat \<Rightarrow> string \<Rightarrow> string" where
  "chapterId i itemId = ''chapter_'' @ numberToString i @ ''_'' @ itemId"

definition chapterIds :: "nat \<Rightarrow> book \<Rightarrow> string list" where
  "chapterIds i b = map (chapterId i) (filter (resolvable b) (bookSpine b))"

subsection \<open>Occurrences in a text\<close>

text \<open>The string \<open>p\<close> occurs in the text \<open>s\<close>.\<close>

fun occursIn :: "string \<Rightarrow> string \<Rightarrow> bool" where
  "occursIn p [] = (p = [])"
| "occursIn p (c # cs) = (startsWith (c # cs) p \<or> occursIn p cs)"

text \<open>The pieces \<open>us\<close> with \<open>sep\<close> between every two neighbours.\<close>

fun join :: "string \<Rightarrow> string list \<Rightarrow> string" where
  "join sep [] = []"
| "join sep [u] = u"
| "join sep (u # v # vs) = u @ sep @ join sep (v # vs)"

text \<open>A non-empty proper end of \<open>p\<close> is a start of \<open>t\<close>.\<close>

fun endsInStartOf :: "string \<Rightarrow> string \<Rightarrow> bool" where
  "endsInStartOf [] t = False"
| "endsInStartOf (c # cs) t = ((cs \<noteq> [] \<and> startsWith t cs) \<or> endsInStartOf cs t)"

text \<open>
  An occurrence of \<open>p\<close> can share characters with an occurrence of \<open>t\<close>: one of them
  occurs in the other, or a non-empty proper end of one is a start of the other.
\<close>

definition touches :: "string \<Rightarrow> string \<Rightarrow> bool" where
  "touches p t =
     (occursIn p t \<or> occursIn t p \<or> endsInStartOf p t \<or> endsInStartOf t p)"

text \<open>
  The reference that replaces the original path of an asset: the target path without the
  leading \<open>OEBPS/\<close>, behind \<open>../\<close>.
\<close>

definition relativeReference :: "resource \<Rightarrow> string" where
  "relativeReference a = ''../'' @ drop 6 (href a)"

subsection \<open>More example inputs\<close>



text \<open>A book whose chapter names a font of the book.\<close>

definition gamma :: buffer where
  \<open>gamma = epub ''OEBPS/content.opf''
     \<lparr>metadata = Some \<lparr>dc_title = Some ''Gamma'', dc_creator = None, dc_language = None\<rparr>,
      manifest = Some
        [\<lparr>item_id = ''c1'', item_href = ''ch1.xhtml'', media_type = Some ''application/xhtml+xml''\<rparr>,
         \<lparr>item_id = ''f'', item_href = ''face.ttf'', media_type = Some ''font/ttf''\<rparr>],
      spine = Some [''c1'']\<rparr>
     [(''OEBPS/ch1.xhtml'', ''<style>@font-face { src: url(face.ttf) }</style>''),
      (''OEBPS/face.ttf'', ''TTF'')]\<close>

text \<open>A book with an image whose file name has two dollar signs.\<close>

definition dollars :: buffer where
  \<open>dollars = epub ''OEBPS/content.opf''
     \<lparr>metadata = Some \<lparr>dc_title = Some ''Cash'', dc_creator = None, dc_language = None\<rparr>,
      manifest = Some
        [\<lparr>item_id = ''c1'', item_href = ''ch1.xhtml'', media_type = Some ''application/xhtml+xml''\<rparr>,
         \<lparr>item_id = ''p'', item_href = ''cash$$.png'', media_type = Some ''image/png''\<rparr>],
      spine = Some [''c1'']\<rparr>
     [(''OEBPS/ch1.xhtml'', ''<img src="cash$$.png"/>''),
      (''OEBPS/cash$$.png'', ''PNG'')]\<close>

text \<open>A book with the images \<open>1.png\<close> and \<open>11.png\<close>, whose chapter shows the second.\<close>

definition numbered :: buffer where
  \<open>numbered = epub ''OEBPS/content.opf''
     \<lparr>metadata = Some \<lparr>dc_title = Some ''Plates'', dc_creator = None, dc_language = None\<rparr>,
      manifest = Some
        [\<lparr>item_id = ''c1'', item_href = ''ch1.xhtml'', media_type = Some ''application/xhtml+xml''\<rparr>,
         \<lparr>item_id = ''i1'', item_href = ''1.png'', media_type = Some ''image/png''\<rparr>,
         \<lparr>item_id = ''i11'', item_href = ''11.png'', media_type = Some ''image/png''\<rparr>],
      spine = Some [''c1'']\<rparr>
     [(''OEBPS/ch1.xhtml'', ''<img src="11.png"/>''),
      (''OEBPS/1.png'', ''PNG-1''),
      (''OEBPS/11.png'', ''PNG-11'')]\<close>

text \<open>
  The chapter, the image and the style that Book Alpha yields at index 0, as they are
  before the rewriting, and the image that Book Beta yields at index 1.
\<close>

definition alphaChapter :: resource where
  \<open>alphaChapter =
     \<lparr>ident = ''chapter_0_c1'', href = ''OEBPS/Text/chapter_0_c1.xhtml'',
      content = ''<link href="style.css"/><img src="pic.jpg"/>'', mediaType = None,
      originalHref = ''ch1.xhtml'', bookIndex = 0\<rparr>\<close>

definition alphaImage :: resource where
  "alphaImage =
     \<lparr>ident = ''img_0_p'', href = ''OEBPS/Images/img_0_p_pic.jpg'', content = ''JPEG-A'',
      mediaType = Some ''image/jpeg'', originalHref = ''pic.jpg'', bookIndex = 0\<rparr>"

definition alphaStyle :: resource where
  "alphaStyle =
     \<lparr>ident = ''style_0_s'', href = ''OEBPS/Styles/style_0_s_style.css'', content = ''p {}'',
      mediaType = None, originalHref = ''style.css'', bookIndex = 0\<rparr>"

definition betaImage :: resource where
  "betaImage =
     \<lparr>ident = ''img_1_p'', href = ''OEBPS/Images/img_1_p_pic.jpg'', content = ''JPEG-B'',
      mediaType = Some ''image/jpeg'', originalHref = ''pic.jpg'', bookIndex = 1\<rparr>"

section \<open>Properties\<close>

subsection \<open>The loops as list functions\<close>

lemma pushEach_eq: "pushEach body xs acc = acc @ List.map_filter body xs"
  unfolding pushEach_def
  by (induction xs arbitrary: acc) (simp_all add: List.map_filter_simps split: option.splits)

lemma perBook_Nil [simp]: "perBook f i [] = []"
  by (simp add: perBook_def)

lemma perBook_Cons [simp]: "perBook f i (b # books) = f i b @ perBook f (Suc i) books"
  by (simp add: perBook_def)

lemma processBooks_opened:
  "map openBook bs = map Inr books \<Longrightarrow> processBooks i bs w = Inr (extractBooks i books w)"
proof (induction bs arbitrary: i w books)
  case Nil
  then show ?case by simp
next
  case (Cons b bs)
  then obtain k ks where books: "books = k # ks" and b: "openBook b = Inr k"
    and rest: "map openBook bs = map Inr ks"
    by (cases books) auto
  show ?case
    using Cons.IH [OF rest] by (simp add: books processBook_def b)
qed

lemma processBooks_success:
  "processBooks i bs w = Inr w' \<Longrightarrow> \<exists>books. map openBook bs = map Inr books"
proof (induction bs arbitrary: i w)
  case Nil
  then show ?case by simp
next
  case (Cons b bs)
  from Cons.prems obtain k where b: "openBook b = Inr k"
    and rest: "processBooks (Suc i) bs (extractBook i k w) = Inr w'"
    by (auto simp: processBook_def split: sum.splits)
  from Cons.IH [OF rest] obtain ks where "map openBook bs = map Inr ks" ..
  then have "map openBook (b # bs) = map Inr (k # ks)"
    using b by simp
  then show ?case ..
qed

lemma processBooks_failure:
  "map openBook pre = map Inr books \<Longrightarrow> openBook b = Inl e \<Longrightarrow>
   processBooks i (pre @ b # post) w = Inl e"
proof (induction pre arbitrary: i w books)
  case Nil
  then show ?case by (simp add: processBook_def)
next
  case (Cons p pre)
  then obtain k ks where "books = k # ks" and p: "openBook p = Inr k"
    and rest: "map openBook pre = map Inr ks"
    by (cases books) auto
  show ?case
    using Cons.IH [OF rest Cons.prems(2)] by (simp add: processBook_def p)
qed

lemma allChapters_extractBooks:
  "allChapters (extractBooks i books w) = allChapters w @ perBook chaptersOf i books"
  by (induction books arbitrary: i w) (simp_all add: extractBook_def pushEach_eq chaptersOf_def)

lemma allImages_extractBooks:
  "allImages (extractBooks i books w) = allImages w @ perBook imagesOf i books"
  by (induction books arbitrary: i w) (simp_all add: extractBook_def pushEach_eq imagesOf_def)

lemma allStyles_extractBooks:
  "allStyles (extractBooks i books w) = allStyles w @ perBook stylesOf i books"
  by (induction books arbitrary: i w) (simp_all add: extractBook_def pushEach_eq stylesOf_def)

lemma allFonts_extractBooks:
  "allFonts (extractBooks i books w) = allFonts w @ perBook fontsOf i books"
  by (induction books arbitrary: i w) (simp_all add: extractBook_def pushEach_eq fontsOf_def)

lemma merged_opened:
  "map openBook bs = map Inr books \<Longrightarrow>
   merged uuid bs = Inr (rewriteReferences (extracted uuid books))"
  by (simp add: merged_def extracted_def processBooks_opened)

lemma merged_success:
  "merged uuid bs = Inr w \<Longrightarrow>
   \<exists>books. map openBook bs = map Inr books \<and> w = rewriteReferences (extracted uuid books)"
proof -
  assume m: "merged uuid bs = Inr w"
  then obtain w0 where p: "processBooks 0 bs (initial uuid) = Inr w0"
    by (auto simp: merged_def split: sum.splits)
  from processBooks_success [OF p] obtain books where o: "map openBook bs = map Inr books" ..
  from merged_opened [OF o] m have "w = rewriteReferences (extracted uuid books)"
    by simp
  with o show ?thesis by blast
qed

lemma combineEpubs_success:
  "combineEpubs uuid bs = Inr out \<Longrightarrow>
   \<exists>w. merged uuid bs = Inr w \<and> out = generateAsync DEFLATE (outputZip w)"
  by (auto simp: combineEpubs_def split: sum.splits)

lemma extracted_chapters [simp]: "allChapters (extracted uuid books) = perBook chaptersOf 0 books"
  by (simp add: extracted_def allChapters_extractBooks initial_def)

lemma extracted_images [simp]: "allImages (extracted uuid books) = perBook imagesOf 0 books"
  by (simp add: extracted_def allImages_extractBooks initial_def)

lemma extracted_styles [simp]: "allStyles (extracted uuid books) = perBook stylesOf 0 books"
  by (simp add: extracted_def allStyles_extractBooks initial_def)

lemma extracted_fonts [simp]: "allFonts (extracted uuid books) = perBook fontsOf 0 books"
  by (simp add: extracted_def allFonts_extractBooks initial_def)

subsection \<open>Target paths\<close>

lemma set_map_filter_iff: "y \<in> set (List.map_filter f xs) \<longleftrightarrow> (\<exists>x\<in>set xs. f x = Some y)"
  by (induction xs) (auto simp: List.map_filter_simps split: option.splits)

lemma assetOf_fields:
  "assetOf p d k i bd fs it = Some r \<Longrightarrow>
   ident r = p @ numberToString i @ ''_'' @ item_id it
   \<and> href r = ''OEBPS/'' @ d @ ''/'' @ ident r @ ''_'' @ afterLastSlash (item_href it)
   \<and> originalHref r = item_href it \<and> bookIndex r = i
   \<and> fs (bd @ item_href it) = Some (content r)"
  by (auto simp: assetOf_def Let_def split: option.splits)

lemma chapterOf_fields:
  "chapterOf i bd fs mm itemId = Some r \<Longrightarrow>
   ident r = ''chapter_'' @ numberToString i @ ''_'' @ itemId
   \<and> href r = ''OEBPS/Text/'' @ ident r @ ''.xhtml'' \<and> bookIndex r = i"
  by (auto simp: chapterOf_def Let_def split: option.splits if_splits)

lemma chaptersOf_fields:
  "r \<in> set (chaptersOf i b) \<Longrightarrow>
   (\<exists>itemId. ident r = ''chapter_'' @ numberToString i @ ''_'' @ itemId)
   \<and> href r = ''OEBPS/Text/'' @ ident r @ ''.xhtml'' \<and> bookIndex r = i"
  unfolding chaptersOf_def set_map_filter_iff by (blast dest: chapterOf_fields)

lemma imagesOf_fields:
  "r \<in> set (imagesOf i b) \<Longrightarrow>
   \<exists>it\<in>set (bookManifest b). ident r = ''img_'' @ numberToString i @ ''_'' @ item_id it
     \<and> href r = ''OEBPS/Images/'' @ ident r @ ''_'' @ afterLastSlash (item_href it)
     \<and> originalHref r = item_href it \<and> bookIndex r = i"
  unfolding imagesOf_def set_map_filter_iff imageOf_def
  by (auto split: if_splits dest!: assetOf_fields)

lemma stylesOf_fields:
  "r \<in> set (stylesOf i b) \<Longrightarrow>
   \<exists>it\<in>set (bookManifest b). ident r = ''style_'' @ numberToString i @ ''_'' @ item_id it
     \<and> href r = ''OEBPS/Styles/'' @ ident r @ ''_'' @ afterLastSlash (item_href it)
     \<and> originalHref r = item_href it \<and> bookIndex r = i"
  unfolding stylesOf_def set_map_filter_iff styleOf_def
  by (auto split: if_splits dest!: assetOf_fields)




lemma inContentRoot_imagesOf: "r \<in> set (imagesOf i b) \<Longrightarrow> inContentRoot r"
  by (auto simp: inContentRoot_def startsWith_def dest!: imagesOf_fields)

lemma inContentRoot_stylesOf: "r \<in> set (stylesOf i b) \<Longrightarrow> inContentRoot r"
  by (auto simp: inContentRoot_def startsWith_def dest!: stylesOf_fields)


lemma rewriteChapter_fields [simp]:
  "ident (rewriteChapter is ss c) = ident c"
  "href (rewriteChapter is ss c) = href c"
  "bookIndex (rewriteChapter is ss c) = bookIndex c"
  "originalHref (rewriteChapter is ss c) = originalHref c"
  "mediaType (rewriteChapter is ss c) = mediaType c"
  by (simp_all add: rewriteChapter_def)

lemma rewriteReferences_fields [simp]:
  "allChapters (rewriteReferences w) = map (rewriteChapter (allImages w) (allStyles w)) (allChapters w)"
  "allImages (rewriteReferences w) = allImages w"
  "allStyles (rewriteReferences w) = allStyles w"
  "allFonts (rewriteReferences w) = allFonts w"
  "bookMetadata (rewriteReferences w) = bookMetadata w"
  "combinedMetadata (rewriteReferences w) = combinedMetadata w"
  by (simp_all add: rewriteReferences_def)

lemma inContentRoot_rewriteChapter [simp]:
  "inContentRoot (rewriteChapter is ss c) = inContentRoot c"
  by (simp add: inContentRoot_def)


subsection \<open>The entries of the archive\<close>






subsection \<open>Chapters in spine order\<close>

lemma map_perBook: "map g (perBook f i books) = perBook (\<lambda>j b. map g (f j b)) i books"
  by (induction books arbitrary: i) simp_all


lemma ident_chapterOf:
  "map ident (List.map_filter (chapterOf i (baseDir b) (entries b) (manifestMap (bookManifest b))) sp)
   = map (chapterId i) (filter (resolvable b) sp)"
  by (induction sp)
    (auto simp: List.map_filter_simps chapterOf_def resolvable_def chapterId_def Let_def
      split: option.splits)

lemma ident_chaptersOf: "map ident (chaptersOf i b) = chapterIds i b"
  by (simp add: chaptersOf_def chapterIds_def ident_chapterOf)

lemma length_chaptersOf: "length (chaptersOf i b) = length (filter (resolvable b) (bookSpine b))"
  using arg_cong [OF ident_chaptersOf, of length] by (simp add: chapterIds_def)

lemma bookIndex_chaptersOf: "map bookIndex (chaptersOf i b) = replicate (length (chaptersOf i b)) i"
  by (rule replicate_eqI) (auto dest: chaptersOf_fields)

lemma sorted_perBook_index:
  assumes "\<And>j b. map g (f j b) = replicate (length (f j b)) j"
  shows "sorted (map g (perBook f i books)) \<and> (\<forall>x\<in>set (map g (perBook f i books)). i \<le> x)"
proof (induction books arbitrary: i)
  case Nil
  then show ?case by simp
next
  case (Cons b books)
  from Cons.IH [of "Suc i"]
  have tl: "sorted (map g (perBook f (Suc i) books))"
    and lb: "\<forall>x\<in>set (map g (perBook f (Suc i) books)). Suc i \<le> x"
    by simp_all
  show ?case
    using tl lb by (auto simp: assms sorted_append)
qed

lemma merged_chapters:
  assumes "map openBook bs = map Inr books"
  shows "\<exists>w. merged uuid bs = Inr w
    \<and> map ident (allChapters w) = perBook chapterIds 0 books
    \<and> map bookIndex (allChapters w) = map bookIndex (perBook chaptersOf 0 books)
    \<and> length (allChapters w) = length (perBook chaptersOf 0 books)"
proof -
  let ?w = "rewriteReferences (extracted uuid books)"
  have "map ident (allChapters ?w) = map ident (perBook chaptersOf 0 books)"
    by (simp add: comp_def)
  then have "map ident (allChapters ?w) = perBook chapterIds 0 books"
    by (simp add: map_perBook ident_chaptersOf)
  moreover have "map bookIndex (allChapters ?w) = map bookIndex (perBook chaptersOf 0 books)"
    by (simp add: comp_def)
  moreover have "length (allChapters ?w) = length (perBook chaptersOf 0 books)"
    by simp
  ultimately show ?thesis
    using merged_opened [OF assms] by blast
qed

lemma outputZip_opf:
  "generateAsync DEFLATE (outputZip w) ''OEBPS/content.opf''
   = Some (PackageDocument (opfContent w), DEFLATE)"
  by (simp add: generateAsync_def outputZip_def zipFile_def)

lemma spineItems_opfContent: "spineItems (opfContent w) = ''toc-page'' # map ident (allChapters w)"
  by (simp add: opfContent_def)

subsection \<open>The example inputs\<close>

lemma openBook_epub:
  "openBook (epub path \<lparr>metadata = Some md, manifest = Some mf, spine = Some sp\<rparr> fs)
   = Inr \<lparr>baseDir = upToLastSlash path, entries = map_of fs, bookMeta = md,
          bookManifest = mf, bookSpine = sp\<rparr>"
  by (simp add: openBook_def epub_def)

lemma map_Inr_eq: "map Inr xs = map Inr ys \<Longrightarrow> xs = ys"
  by (simp add: inj_map_eq_map)

subsection \<open>Book metadata and the table of contents\<close>









lemma all_opened:
  "\<forall>y\<in>set pre. \<exists>k. openBook y = Inr k \<Longrightarrow> \<exists>ks. map openBook pre = map Inr ks"
proof (induction pre)
  case Nil
  then show ?case by simp
next
  case (Cons p pre)
  then obtain k ks where "openBook p = Inr k" "map openBook pre = map Inr ks"
    by auto
  then have "map openBook (p # pre) = map Inr (k # ks)"
    by simp
  then show ?case ..
qed

lemma first_failure:
  assumes "b \<in> set bs" and "openBook b = Inl e"
  shows "\<exists>e'. processBooks i bs w = Inl e'"
proof -
  from assms have "\<exists>x\<in>set bs. \<exists>e'. openBook x = Inl e'"
    by blast
  from split_list_first_prop [OF this]
  obtain pre x post where bs: "bs = pre @ x # post" and x: "\<exists>e'. openBook x = Inl e'"
    and pre: "\<forall>y\<in>set pre. \<not> (\<exists>e'. openBook y = Inl e')"
    by blast
  from x obtain e' where e': "openBook x = Inl e'" ..
  have "\<forall>y\<in>set pre. \<exists>k. openBook y = Inr k"
  proof
    fix y assume "y \<in> set pre"
    with pre show "\<exists>k. openBook y = Inr k"
      by (cases "openBook y") auto
  qed
  from all_opened [OF this] obtain ks where "map openBook pre = map Inr ks" ..
  from processBooks_failure [OF this e'] show ?thesis
    unfolding bs by blast
qed

subsection \<open>The pattern and the new reference of a rewriting step\<close>

lemma backslash_syntaxCharacter: "CHR 0x5C \<in> syntaxCharacters"
  by (simp add: syntaxCharacters_def)

lemma escapeRegExp_Cons:
  "escapeRegExp (c # s) = (if c \<in> syntaxCharacters then [CHR 0x5C, c] else [c]) @ escapeRegExp s"
  by (simp add: escapeRegExp_def)

lemma literalOfSource_plain:
  "c \<notin> syntaxCharacters \<Longrightarrow> literalOfSource (c # r) = map_option ((#) c) (literalOfSource r)"
  using backslash_syntaxCharacter by (cases r) auto

lemma literalOfSource_escaped:
  "c \<in> syntaxCharacters \<Longrightarrow>
   literalOfSource (CHR 0x5C # c # r) = map_option ((#) c) (literalOfSource r)"
  by simp

lemma literalOfSource_escapeRegExp: "literalOfSource (escapeRegExp s) = Some s"
proof (induction s)
  case Nil
  then show ?case by (simp add: escapeRegExp_def)
next
  case (Cons c s)
  show ?case
  proof (cases "c \<in> syntaxCharacters")
    case True
    then show ?thesis
      by (simp only: escapeRegExp_Cons if_True append_Cons append_Nil
          literalOfSource_escaped Cons.IH option.map)
  next
    case False
    then show ?thesis
      by (simp add: escapeRegExp_Cons literalOfSource_plain Cons.IH del: literalOfSource.simps)
  qed
qed

lemma startsWith_append [simp]: "startsWith (p @ t) p"
  by (simp add: startsWith_def)

lemma replace_prefix: "p \<noteq> [] \<Longrightarrow> replace (p @ t) p [] = t"
  by (cases p) (simp_all add: replace_def startsWith_def)

lemma inContentRoot_href: "inContentRoot a \<Longrightarrow> href a = ''OEBPS/'' @ drop 6 (href a)"
proof -
  assume "inContentRoot a"
  then have "take (length ''OEBPS/'') (href a) = ''OEBPS/''"
    unfolding inContentRoot_def startsWith_def .
  moreover have "length ''OEBPS/'' = 6"
    by simp
  ultimately have "take 6 (href a) = ''OEBPS/''"
    by (simp only:)
  then have "take 6 (href a) @ drop 6 (href a) = ''OEBPS/'' @ drop 6 (href a)"
    by simp
  then show ?thesis
    by (simp only: append_take_drop_id)
qed

lemma replace_contentRoot:
  assumes "inContentRoot a"
  shows "replace (href a) ''OEBPS/'' [] = drop 6 (href a)"
proof -
  have "replace (''OEBPS/'' @ drop 6 (href a)) ''OEBPS/'' [] = drop 6 (href a)"
    by (rule replace_prefix) simp
  then show ?thesis
    using inContentRoot_href [OF assms] by simp
qed

lemma rewriteStep_same_book:
  "bookIndex a = bookIndex c \<Longrightarrow>
   rewriteStep c s a = replaceAll s (originalHref a) (''../'' @ replace (href a) ''OEBPS/'' [])"
  by (simp add: rewriteStep_def literalOfSource_escapeRegExp)

lemma rewriteStep_other_book: "bookIndex a \<noteq> bookIndex c \<Longrightarrow> rewriteStep c s a = s"
  by (simp add: rewriteStep_def)

lemma foldl_rewriteStep_filter:
  "foldl (rewriteStep c) s as
   = foldl (rewriteStep c) s (filter (\<lambda>a. bookIndex a = bookIndex c) as)"
  by (induction as arbitrary: s) (simp_all add: rewriteStep_other_book)

lemma rewriteChapter_filter:
  "rewriteChapter is ss c
   = rewriteChapter (filter (\<lambda>a. bookIndex a = bookIndex c) is)
       (filter (\<lambda>a. bookIndex a = bookIndex c) ss) c"
  unfolding rewriteChapter_def
  by (subst foldl_rewriteStep_filter [of c _ ss], subst foldl_rewriteStep_filter [of c _ "is"])
    (rule refl)

subsection \<open>The assets that a chapter sees\<close>

lemma filter_perBook:
  assumes "\<And>j b r. r \<in> set (f j b) \<Longrightarrow> g r = j"
  shows "filter (\<lambda>r. g r = k) (perBook f i books)
    = (if i \<le> k \<and> k < i + length books then f k (books ! (k - i)) else [])"
proof (induction books arbitrary: i)
  case Nil
  then show ?case by auto
next
  case (Cons b books)
  have here: "filter (\<lambda>r. g r = k') (f i b) = (if k' = i then f i b else [])" for k'
    using assms [of _ i b] by (auto simp: filter_empty_conv filter_id_conv)
  note rest = Cons.IH [of "Suc i"]
  show ?case
  proof (cases "k = i")
    case True
    then show ?thesis
      using here [of k] rest by simp
  next
    case False
    show ?thesis
    proof (cases "i < k")
      case True
      then have "k - i = Suc (k - Suc i)"
        by arith
      then have "(b # books) ! (k - i) = books ! (k - Suc i)"
        by simp
      then show ?thesis
        using here [of k] rest True by auto
    next
      case False
      with \<open>k \<noteq> i\<close> show ?thesis
        using here [of k] rest by auto
    qed
  qed
qed

lemma perBook_cong:
  "(\<And>k. k < length books \<Longrightarrow> f (i + k) (books ! k) = g (i + k) (books ! k)) \<Longrightarrow>
   perBook f i books = perBook g i books"
proof (induction books arbitrary: i)
  case Nil
  then show ?case by simp
next
  case (Cons b books)
  from Cons.prems [of 0] have "f i b = g i b"
    by simp
  moreover have "perBook f (Suc i) books = perBook g (Suc i) books"
  proof (rule Cons.IH)
    fix k assume "k < length books"
    then show "f (Suc i + k) (books ! k) = g (Suc i + k) (books ! k)"
      using Cons.prems [of "Suc k"] by simp
  qed
  ultimately show ?case by simp
qed

lemma bookIndex_imagesOf: "r \<in> set (imagesOf j b) \<Longrightarrow> bookIndex r = j"
  by (auto dest: imagesOf_fields)

lemma bookIndex_stylesOf: "r \<in> set (stylesOf j b) \<Longrightarrow> bookIndex r = j"
  by (auto dest: stylesOf_fields)

lemma bookIndex_in_chaptersOf: "r \<in> set (chaptersOf j b) \<Longrightarrow> bookIndex r = j"
  by (auto dest: chaptersOf_fields)

text \<open>The chapters of book \<open>i\<close> as the rewriting leaves them.\<close>

lemma rewritten_chapters:
  "allChapters (rewriteReferences (extracted uuid books))
   = perBook (\<lambda>i b. map (rewriteChapter (imagesOf i b) (stylesOf i b)) (chaptersOf i b)) 0 books"
proof -
  let ?is = "perBook imagesOf 0 books" and ?ss = "perBook stylesOf 0 books"
  have "map (rewriteChapter ?is ?ss) (chaptersOf k (books ! k))
      = map (rewriteChapter (imagesOf k (books ! k)) (stylesOf k (books ! k)))
          (chaptersOf k (books ! k))" if k: "k < length books" for k
  proof (rule map_cong [OF refl])
    fix c assume "c \<in> set (chaptersOf k (books ! k))"
    then have c: "bookIndex c = k"
      by (rule bookIndex_in_chaptersOf)
    have i: "filter (\<lambda>a. bookIndex a = bookIndex c) ?is = imagesOf k (books ! k)"
      using k by (simp add: c filter_perBook [of imagesOf bookIndex, OF bookIndex_imagesOf])
    have s: "filter (\<lambda>a. bookIndex a = bookIndex c) ?ss = stylesOf k (books ! k)"
      using k by (simp add: c filter_perBook [of stylesOf bookIndex, OF bookIndex_stylesOf])
    have own: "filter (\<lambda>a. bookIndex a = bookIndex c) (imagesOf k (books ! k)) = imagesOf k (books ! k)"
      "filter (\<lambda>a. bookIndex a = bookIndex c) (stylesOf k (books ! k)) = stylesOf k (books ! k)"
      by (auto simp: filter_id_conv c dest: bookIndex_imagesOf bookIndex_stylesOf)
    show "rewriteChapter ?is ?ss c
        = rewriteChapter (imagesOf k (books ! k)) (stylesOf k (books ! k)) c"
      by (subst rewriteChapter_filter, subst (2) rewriteChapter_filter) (simp only: i s own)
  qed
  then have "perBook (\<lambda>i b. map (rewriteChapter ?is ?ss) (chaptersOf i b)) 0 books
      = perBook (\<lambda>i b. map (rewriteChapter (imagesOf i b) (stylesOf i b)) (chaptersOf i b)) 0 books"
    by (intro perBook_cong) simp
  then show ?thesis
    by (simp add: map_perBook)
qed

subsection \<open>Replacing all occurrences\<close>

lemma startsWith_iff: "startsWith s p \<longleftrightarrow> (\<exists>r. s = p @ r)"
proof
  assume "startsWith s p"
  then have "s = p @ drop (length p) s"
    unfolding startsWith_def by (metis append_take_drop_id)
  then show "\<exists>r. s = p @ r" ..
next
  assume "\<exists>r. s = p @ r"
  then show "startsWith s p"
    by (auto simp: startsWith_def)
qed

lemma occursIn_iff: "occursIn p s \<longleftrightarrow> (\<exists>u v. s = u @ p @ v)"
proof (induction s)
  case Nil
  then show ?case by simp
next
  case (Cons c s)
  show ?case
  proof
    assume "occursIn p (c # s)"
    then consider "startsWith (c # s) p" | "occursIn p s"
      by auto
    then show "\<exists>u v. c # s = u @ p @ v"
    proof cases
      case 1
      then obtain r where "c # s = [] @ p @ r"
        by (auto simp: startsWith_iff)
      then show ?thesis by blast
    next
      case 2
      with Cons.IH obtain u v where "s = u @ p @ v"
        by blast
      then have "c # s = (c # u) @ p @ v"
        by simp
      then show ?thesis by blast
    qed
  next
    assume "\<exists>u v. c # s = u @ p @ v"
    then obtain u v where s: "c # s = u @ p @ v"
      by blast
    show "occursIn p (c # s)"
    proof (cases u)
      case Nil
      with s have "startsWith (c # s) p"
        by (auto simp: startsWith_iff)
      then show ?thesis by simp
    next
      case (Cons d u')
      with s have "s = u' @ p @ v"
        by simp
      with Cons.IH have "occursIn p s"
        by blast
      then show ?thesis by simp
    qed
  qed
qed

lemma occursIn_Nil_left [simp]: "occursIn [] s"
  by (induction s) (simp_all add: startsWith_def)

lemma getSubstitution_plain:
  "CHR ''$'' \<notin> set rep \<Longrightarrow> getSubstitution m f b rep = rep"
  by (induction m f b rep rule: getSubstitution.induct) auto

lemma replaceAllFrom_Nil: "p \<noteq> [] \<Longrightarrow> replaceAllFrom p rep f [] = []"
  by (subst replaceAllFrom.simps) (simp add: startsWith_def)

lemma replaceAllFrom_match:
  "p \<noteq> [] \<Longrightarrow>
   replaceAllFrom p rep f (p @ s) = getSubstitution p f s rep @ replaceAllFrom p rep (f @ p) s"
  by (subst replaceAllFrom.simps) simp

lemma replaceAllFrom_no_match:
  "\<not> startsWith (c # s) p \<Longrightarrow>
   replaceAllFrom p rep f (c # s) = c # replaceAllFrom p rep (f @ [c]) s"
  by (subst replaceAllFrom.simps) simp

lemma join_Cons: "us \<noteq> [] \<Longrightarrow> join sep (u # us) = u @ sep @ join sep us"
  by (cases us) simp_all

lemma join_Cons_Cons: "join sep ((c # u) # us) = c # join sep (u # us)"
  by (cases us) simp_all

lemma join_head: "\<exists>t. join sep (u # us) = u @ t"
  by (cases us) simp_all

lemma startsWith_longer: "startsWith u p \<Longrightarrow> startsWith (u @ t) p"
  by (auto simp: startsWith_iff)

text \<open>
  The scan cuts the text at the occurrences it finds: the pieces between them are free
  of the literal, and the result is the same pieces with the replacement between them.
\<close>

lemma replaceAllFrom_join:
  assumes "p \<noteq> []" and "CHR ''$'' \<notin> set rep"
  shows "\<exists>us. us \<noteq> [] \<and> s = join p us \<and> replaceAllFrom p rep f s = join rep us
    \<and> (\<forall>u\<in>set us. \<not> occursIn p u) \<and> (occursIn p s \<longrightarrow> 2 \<le> length us)"
proof (induction s arbitrary: f rule: length_induct)
  case (1 s)
  note IH = "1.IH" [rule_format]
  have np: "\<not> occursIn p []"
    using assms(1) by simp
  show ?case
  proof (cases "startsWith s p")
    case True
    then obtain s' where s: "s = p @ s'"
      by (auto simp: startsWith_iff)
    with assms(1) have "length s' < length s"
      by simp
    from IH [OF this, of "f @ p"] obtain us
      where us: "us \<noteq> []" "s' = join p us" "replaceAllFrom p rep (f @ p) s' = join rep us"
        "\<forall>u\<in>set us. \<not> occursIn p u"
      by blast
    let ?us = "[] # us"
    have "s = join p ?us"
      using us(1,2) s by (simp add: join_Cons)
    moreover have "replaceAllFrom p rep f s = join rep ?us"
      using us(1,3) assms
      by (simp add: s replaceAllFrom_match getSubstitution_plain join_Cons)
    moreover have "\<forall>u\<in>set ?us. \<not> occursIn p u"
      using us(4) np by simp
    moreover have "2 \<le> length ?us"
      using us(1) by (cases us) simp_all
    ultimately show ?thesis
      by blast
  next
    case False
    show ?thesis
    proof (cases s)
      case Nil
      have "s = join p [[]]" "replaceAllFrom p rep f s = join rep [[]]"
        using assms(1) by (simp_all add: Nil replaceAllFrom_Nil)
      moreover have "\<forall>u\<in>set [[]]. \<not> occursIn p u"
        using np by simp
      moreover have "\<not> occursIn p s"
        using np Nil by simp
      ultimately show ?thesis
        by blast
    next
      case (Cons c cs)
      then have "length cs < length s"
        by simp
      from IH [OF this, of "f @ [c]"] obtain us
        where us: "us \<noteq> []" "cs = join p us" "replaceAllFrom p rep (f @ [c]) cs = join rep us"
          "\<forall>u\<in>set us. \<not> occursIn p u" "occursIn p cs \<longrightarrow> 2 \<le> length us"
        by blast
      from us(1) obtain u0 rest where u0: "us = u0 # rest"
        by (cases us) auto
      let ?us = "(c # u0) # rest"
      have "s = join p ?us"
        using us(2) by (simp add: Cons u0 join_Cons_Cons)
      moreover have "replaceAllFrom p rep f s = join rep ?us"
        using False us(3) by (simp add: Cons replaceAllFrom_no_match u0 join_Cons_Cons)
      moreover have "\<not> occursIn p (c # u0)"
      proof
        assume "occursIn p (c # u0)"
        moreover have "\<not> occursIn p u0"
          using us(4) u0 by simp
        ultimately have "startsWith (c # u0) p"
          by simp
        moreover obtain t where "cs = u0 @ t"
          using join_head [of p u0 rest] us(2) u0 by auto
        ultimately have "startsWith (c # cs) p"
          using startsWith_longer [of "c # u0" p t] by simp
        with False Cons show False
          by simp
      qed
      then have "\<forall>u\<in>set ?us. \<not> occursIn p u"
        using us(4) u0 by simp
      moreover have "occursIn p s \<longrightarrow> 2 \<le> length ?us"
        using False us(5) by (simp add: Cons u0)
      ultimately show ?thesis
        by blast
    qed
  qed
qed

lemma occursIn_join:
  "2 \<le> length us \<Longrightarrow> occursIn sep (join sep us)"
proof -
  assume "2 \<le> length us"
  then obtain u v vs where "us = u # v # vs"
    by (cases us; cases "tl us") auto
  then have "join sep us = u @ sep @ join sep (v # vs)"
    by simp
  then show ?thesis
    unfolding occursIn_iff by blast
qed

subsection \<open>Occurrences that a replacement leaves alone\<close>

lemma touches_inside: "occursIn p t \<Longrightarrow> touches p t"
  by (simp add: touches_def)

lemma touches_around: "occursIn t p \<Longrightarrow> touches p t"
  by (simp add: touches_def)

lemma endsInStartOf_split:
  "x \<noteq> [] \<Longrightarrow> y \<noteq> [] \<Longrightarrow> startsWith t y \<Longrightarrow> endsInStartOf (x @ y) t"
proof (induction x)
  case Nil
  then show ?case by simp
next
  case (Cons c x)
  show ?case
  proof (cases "x = []")
    case True
    with Cons.prems show ?thesis by simp
  next
    case False
    with Cons have "endsInStartOf (x @ y) t"
      by simp
    then show ?thesis by simp
  qed
qed

lemma touches_end_start:
  assumes "p = x @ y" and "t = y @ z" and "x \<noteq> []" and "y \<noteq> []"
  shows "touches p t"
proof -
  have "startsWith t y"
    using assms(2) by (simp add: startsWith_iff)
  from endsInStartOf_split [OF assms(3,4) this] show ?thesis
    by (simp add: touches_def assms(1))
qed

lemma touches_start_end:
  assumes "p = y @ z" and "t = x @ y" and "y \<noteq> []" and "z \<noteq> []"
  shows "touches p t"
proof (cases "x = []")
  case True
  with assms(1,2) have "p = [] @ t @ z"
    by simp
  then have "occursIn t p"
    unfolding occursIn_iff by blast
  then show ?thesis
    by (simp add: touches_def)
next
  case False
  have "startsWith p y"
    using assms(1) by (simp add: startsWith_iff)
  from endsInStartOf_split [OF False assms(3) this] show ?thesis
    by (simp add: touches_def assms(2))
qed

lemma not_touches_nonempty: "\<not> touches p t \<Longrightarrow> p \<noteq> []"
  by (auto simp: touches_def)

text \<open>No occurrence of \<open>p\<close> starts inside \<open>t\<close>.\<close>

lemma no_start_inside:
  assumes "\<not> touches p t" and "t = x @ y" and "y \<noteq> []"
  shows "\<not> startsWith (y @ v) p"
proof
  assume "startsWith (y @ v) p"
  then obtain r where "y @ v = p @ r"
    by (auto simp: startsWith_iff)
  then consider w where "y = p @ w" | w where "p = y @ w"
    by (auto simp: append_eq_append_conv2)
  then show False
  proof cases
    case 1
    then have "t = x @ p @ w"
      using assms(2) by simp
    then have "occursIn p t"
      unfolding occursIn_iff by blast
    with assms(1) show False
      by (simp add: touches_inside)
  next
    case 2
    show False
    proof (cases "w = []")
      case True
      with 2 assms(2) have "t = x @ p @ []"
        by simp
      then have "occursIn p t"
        unfolding occursIn_iff by blast
      with assms(1) show False
        by (simp add: touches_inside)
    next
      case False
      from touches_start_end [OF 2 assms(2) assms(3) False] assms(1) show False
        by simp
    qed
  qed
qed

text \<open>An occurrence of \<open>p\<close> that starts before \<open>t\<close> ends before \<open>t\<close>.\<close>

lemma match_ends_before:
  assumes "\<not> touches p t" and "startsWith (u @ t @ v) p"
  shows "\<exists>u'. u = p @ u'"
proof -
  from assms(2) obtain r where "u @ t @ v = p @ r"
    by (auto simp: startsWith_iff)
  then consider w where "u = p @ w" | w where "p = u @ w" "t @ v = w @ r"
    by (auto simp: append_eq_append_conv2)
  then show ?thesis
  proof cases
    case 1
    then show ?thesis by blast
  next
    case 2
    show ?thesis
    proof (cases "w = []")
      case True
      with 2 have "u = p @ []"
        by simp
      then show ?thesis by blast
    next
      case False
      from 2(2) consider w' where "t = w @ w'" | w' where "w = t @ w'"
        by (auto simp: append_eq_append_conv2)
      then have "touches p t"
      proof cases
        case 1
        show ?thesis
        proof (cases "u = []")
          case True
          with 2(1) 1 have "t = [] @ p @ w'"
            by simp
          then have "occursIn p t"
            unfolding occursIn_iff by blast
          then show ?thesis
            by (rule touches_inside)
        next
          case u: False
          from touches_end_start [OF 2(1) 1 u False] show ?thesis .
        qed
      next
        case 2
        with \<open>p = u @ w\<close> have "p = u @ t @ w'"
          by simp
        then have "occursIn t p"
          unfolding occursIn_iff by blast
        then show ?thesis
          by (rule touches_around)
      qed
      with assms(1) show ?thesis
        by simp
    qed
  qed
qed

lemma copied_through:
  assumes "\<And>x y. t = x @ y \<Longrightarrow> y \<noteq> [] \<Longrightarrow> \<not> startsWith (y @ v) p"
  shows "t = x @ y \<Longrightarrow> replaceAllFrom p rep f (y @ v) = y @ replaceAllFrom p rep (f @ y) v"
proof (induction y arbitrary: x f)
  case Nil
  then show ?case by simp
next
  case (Cons c y)
  from Cons.prems have t: "t = (x @ [c]) @ y"
    by simp
  have "\<not> startsWith (c # y @ v) p"
    using assms [OF Cons.prems] by simp
  then have "replaceAllFrom p rep f ((c # y) @ v) = c # replaceAllFrom p rep (f @ [c]) (y @ v)"
    by (simp add: replaceAllFrom_no_match)
  with Cons.IH [OF t, of "f @ [c]"] show ?case
    by simp
qed

lemma replaceAllFrom_keeps:
  assumes "\<not> touches p t"
  shows "\<exists>u' v'. replaceAllFrom p rep f (u @ t @ v) = u' @ t @ v'"
proof (induction u arbitrary: f rule: length_induct)
  case (1 u)
  note IH = "1.IH" [rule_format]
  have p: "p \<noteq> []"
    using assms by (rule not_touches_nonempty)
  show ?case
  proof (cases "startsWith (u @ t @ v) p")
    case True
    from match_ends_before [OF assms True] obtain u1 where u: "u = p @ u1" ..
    with p have "length u1 < length u"
      by simp
    from IH [OF this, of "f @ p"] obtain u' v'
      where "replaceAllFrom p rep (f @ p) (u1 @ t @ v) = u' @ t @ v'"
      by blast
    then have "replaceAllFrom p rep f (u @ t @ v)
        = (getSubstitution p f (u1 @ t @ v) rep @ u') @ t @ v'"
      using p by (simp add: u replaceAllFrom_match)
    then show ?thesis by blast
  next
    case False
    show ?thesis
    proof (cases u)
      case Nil
      have "replaceAllFrom p rep f (t @ v) = t @ replaceAllFrom p rep (f @ t) v"
        by (rule copied_through [of t v p "[]" t]) (auto dest: no_start_inside [OF assms])
      then have "replaceAllFrom p rep f (u @ t @ v) = [] @ t @ replaceAllFrom p rep (f @ t) v"
        by (simp add: Nil)
      then show ?thesis by blast
    next
      case (Cons c u1)
      then have "length u1 < length u"
        by simp
      from IH [OF this, of "f @ [c]"] obtain u' v'
        where "replaceAllFrom p rep (f @ [c]) (u1 @ t @ v) = u' @ t @ v'"
        by blast
      then have "replaceAllFrom p rep f (u @ t @ v) = (c # u') @ t @ v'"
        using False by (simp add: Cons replaceAllFrom_no_match)
      then show ?thesis by blast
    qed
  qed
qed

lemma replaceAll_keeps:
  assumes "occursIn t s" and "\<not> touches p t"
  shows "occursIn t (replaceAll s p rep)"
proof -
  from assms(1) obtain u v where "s = u @ t @ v"
    unfolding occursIn_iff by blast
  with replaceAllFrom_keeps [OF assms(2), of rep "[]" u v]
  show ?thesis
    unfolding occursIn_iff replaceAll_def by simp
qed

lemma rewriteStep_keeps:
  assumes "occursIn t s" and "bookIndex a = bookIndex c \<longrightarrow> \<not> touches (originalHref a) t"
  shows "occursIn t (rewriteStep c s a)"
proof (cases "bookIndex a = bookIndex c")
  case True
  with assms show ?thesis
    by (simp add: rewriteStep_same_book replaceAll_keeps)
next
  case False
  with assms(1) show ?thesis
    by (simp add: rewriteStep_other_book)
qed

lemma foldl_rewriteStep_keeps:
  assumes "occursIn t s"
    and "\<forall>a\<in>set as. bookIndex a = bookIndex c \<longrightarrow> \<not> touches (originalHref a) t"
  shows "occursIn t (foldl (rewriteStep c) s as)"
  using assms
proof (induction as arbitrary: s)
  case Nil
  then show ?case by simp
next
  case (Cons a as)
  from Cons.prems have "occursIn t (rewriteStep c s a)"
    by (intro rewriteStep_keeps) simp_all
  with Cons show ?case
    by simp
qed

subsection \<open>Book numbers in ids\<close>









subsection \<open>Distinct ids and target paths\<close>
















subsection \<open>No input buffers\<close>

text \<open>
  Claim C10. \<open>combineEpubs\<close> checks no minimum on the number of buffers. For the empty
  list the loop over the buffers does nothing and the function succeeds: the working set
  has no chapter, no image, no style and no font; the spine of the package document is
  the table of contents page alone (length 1); the manifest lists that page and the
  navigation document only; the table of contents page is its fixed head followed
  directly by its fixed tail, with no entry between them; the navigation map is empty;
  and the archive holds the five fixed entries and nothing else.
\<close>

theorem combineEpubs_no_buffers:
  "\<exists>out opf ncx.
     combineEpubs uuid [] = Inr out
     \<and> merged uuid [] = Inr (initial uuid)
     \<and> allChapters (initial uuid) = [] \<and> allImages (initial uuid) = []
     \<and> allStyles (initial uuid) = [] \<and> allFonts (initial uuid) = []
     \<and> out ''OEBPS/content.opf'' = Some (PackageDocument opf, DEFLATE)
     \<and> spineItems opf = [''toc-page''] \<and> length (spineItems opf) = 1
     \<and> map item_id (manifestItems opf) = [''toc-page'', ''ncx'']
     \<and> out ''OEBPS/Text/toc.xhtml'' = Some (Data (tocHead @ tocTail), DEFLATE)
     \<and> out ''OEBPS/toc.ncx'' = Some (NavigationDocument ncx, DEFLATE)
     \<and> navPoints ncx = []
     \<and> dom out = {''mimetype'', ''META-INF/container.xml'', ''OEBPS/Text/toc.xhtml'',
                   ''OEBPS/content.opf'', ''OEBPS/toc.ncx''}"
proof -
  let ?w = "initial uuid"
  let ?out = "generateAsync DEFLATE (outputZip ?w)"
  have lists: "allChapters ?w = []" "allImages ?w = []" "allStyles ?w = []" "allFonts ?w = []"
    "bookMetadata ?w = []"
    by (simp_all add: initial_def)
  have rw: "rewriteReferences ?w = ?w"
    by (simp add: rewriteReferences_def lists)
  have m: "merged uuid [] = Inr ?w"
    by (simp add: merged_def rw)
  have c: "combineEpubs uuid [] = Inr ?out"
    by (simp add: combineEpubs_def m)
  have zip: "outputZip ?w =
      [''mimetype'' \<mapsto> \<lparr>payload = Data ''application/epub+zip'', fileCompression = Some STORE\<rparr>,
       ''META-INF/container.xml'' \<mapsto> \<lparr>payload = Data containerXML, fileCompression = None\<rparr>,
       ''OEBPS/Text/toc.xhtml'' \<mapsto> \<lparr>payload = Data (tocHTML ?w), fileCompression = None\<rparr>,
       ''OEBPS/content.opf'' \<mapsto> \<lparr>payload = PackageDocument (opfContent ?w), fileCompression = None\<rparr>,
       ''OEBPS/toc.ncx'' \<mapsto> \<lparr>payload = NavigationDocument (ncxContent ?w), fileCompression = None\<rparr>]"
    by (simp add: outputZip_def zipFile_def fileEach_def lists)
  have toc: "tocHTML ?w = tocHead @ tocTail"
    by (simp add: tocHTML_def tocEntries_def pushEach_def lists)
  have opf: "spineItems (opfContent ?w) = [''toc-page'']"
    "map item_id (manifestItems (opfContent ?w)) = [''toc-page'', ''ncx'']"
    by (simp_all add: opfContent_def lists)
  have ncx: "navPoints (ncxContent ?w) = []"
    by (simp add: ncxContent_def lists enumerate_eq_zip)
  have o1: "?out ''OEBPS/content.opf'' = Some (PackageDocument (opfContent ?w), DEFLATE)"
    by (simp add: generateAsync_def zip)
  have o2: "?out ''OEBPS/Text/toc.xhtml'' = Some (Data (tocHead @ tocTail), DEFLATE)"
    by (simp add: generateAsync_def zip toc)
  have o3: "?out ''OEBPS/toc.ncx'' = Some (NavigationDocument (ncxContent ?w), DEFLATE)"
    by (simp add: generateAsync_def zip)
  have "dom ?out = dom (outputZip ?w)"
    by (auto simp: generateAsync_def dom_def)
  then have d: "dom ?out = {''mimetype'', ''META-INF/container.xml'', ''OEBPS/Text/toc.xhtml'',
      ''OEBPS/content.opf'', ''OEBPS/toc.ncx''}"
    unfolding zip by auto
  show ?thesis
    using c m lists o1 o2 o3 opf ncx d by (intro exI conjI) simp_all
qed

subsection \<open>The \<open>mimetype\<close> entry\<close>



subsection \<open>The spine of the merged book\<close>

text \<open>
  Claim C3. After a successful merge (of two or more books, and of any other number) the
  spine of the package document is the table of contents page followed by the ids of all
  extracted chapters, so its length is one more than the number of those chapters. The
  chapters stand book by book in the order of the input: first the chapters of book 0 in
  the order of that book's spine, then those of book 1 in the order of its spine, and so
  on; the book indices along the spine never decrease, so no book's chapters are
  interleaved with another's.
\<close>

theorem spine_order:
  assumes "combineEpubs uuid bs = Inr out"
  shows "\<exists>books opf w.
      map openBook bs = map Inr books \<and> merged uuid bs = Inr w
    \<and> out ''OEBPS/content.opf'' = Some (PackageDocument opf, DEFLATE)
    \<and> spineItems opf = ''toc-page'' # map ident (allChapters w)
    \<and> length (spineItems opf) = 1 + length (allChapters w)
    \<and> map ident (allChapters w) = perBook chapterIds 0 books
    \<and> map bookIndex (allChapters w)
        = perBook (\<lambda>i b. replicate (length (chapterIds i b)) i) 0 books
    \<and> sorted (map bookIndex (allChapters w))"
proof -
  from combineEpubs_success [OF assms] obtain w
    where w: "merged uuid bs = Inr w" and out: "out = generateAsync DEFLATE (outputZip w)"
    by blast
  from merged_success [OF w] obtain books
    where o: "map openBook bs = map Inr books"
    by blast
  from merged_chapters [OF o, of uuid] w
  have ids: "map ident (allChapters w) = perBook chapterIds 0 books"
    and idx: "map bookIndex (allChapters w) = map bookIndex (perBook chaptersOf 0 books)"
    by simp_all
  have len: "length (chaptersOf i b) = length (chapterIds i b)" for i b
    by (simp add: length_chaptersOf chapterIds_def)
  have idx': "map bookIndex (allChapters w)
      = perBook (\<lambda>i b. replicate (length (chapterIds i b)) i) 0 books"
    by (simp add: idx map_perBook bookIndex_chaptersOf len)
  have "sorted (map bookIndex (perBook chaptersOf 0 books))"
    using sorted_perBook_index [of bookIndex chaptersOf 0 books]
    by (simp add: bookIndex_chaptersOf)
  then have srt: "sorted (map bookIndex (allChapters w))"
    by (simp add: idx)
  have opf: "out ''OEBPS/content.opf'' = Some (PackageDocument (opfContent w), DEFLATE)"
    by (simp add: out outputZip_opf)
  have sp: "spineItems (opfContent w) = ''toc-page'' # map ident (allChapters w)"
    by (rule spineItems_opfContent)
  then have "length (spineItems (opfContent w)) = 1 + length (allChapters w)"
    by simp
  with o w opf sp ids idx' srt show ?thesis by blast
qed

theorem spine_order_witness:
  "\<exists>out opf. combineEpubs ''u'' [alpha, beta, alpha] = Inr out
     \<and> out ''OEBPS/content.opf'' = Some (PackageDocument opf, DEFLATE)
     \<and> spineItems opf = [''toc-page'', ''chapter_0_c1'', ''chapter_1_c1'', ''chapter_2_c1'']
     \<and> length (spineItems opf) = 4"
proof -
  have "case combineEpubs ''u'' [alpha, beta, alpha] of Inl e \<Rightarrow> False | Inr out \<Rightarrow> True"
    by code_simp
  then obtain out where c: "combineEpubs ''u'' [alpha, beta, alpha] = Inr out"
    by (auto split: sum.splits)
  from spine_order [OF c] obtain books opf w
    where o: "map openBook [alpha, beta, alpha] = map Inr books"
      and "merged ''u'' [alpha, beta, alpha] = Inr w"
      and opf: "out ''OEBPS/content.opf'' = Some (PackageDocument opf, DEFLATE)"
      and sp: "spineItems opf = ''toc-page'' # map ident (allChapters w)"
      and ids: "map ident (allChapters w) = perBook chapterIds 0 books"
    by (elim exE conjE) (rule that)
  let ?A = "\<lparr>baseDir = upToLastSlash ''OEBPS/content.opf'', entries = map_of alphaFiles,
      bookMeta = alphaMeta, bookManifest = alphaManifest, bookSpine = alphaSpine\<rparr>"
  let ?B = "\<lparr>baseDir = upToLastSlash ''content.opf'', entries = map_of betaFiles,
      bookMeta = betaMeta, bookManifest = betaManifest, bookSpine = betaSpine\<rparr>"
  have "map Inr books = map openBook [alpha, beta, alpha]"
    using o by simp
  also have "\<dots> = map Inr [?A, ?B, ?A]"
    by (simp add: alpha_def beta_def openBook_epub)
  finally have books: "books = [?A, ?B, ?A]"
    by (rule map_Inr_eq)
  have "perBook chapterIds 0 [?A, ?B, ?A] = [''chapter_0_c1'', ''chapter_1_c1'', ''chapter_2_c1'']"
    by code_simp
  then have "perBook chapterIds 0 books = [''chapter_0_c1'', ''chapter_1_c1'', ''chapter_2_c1'']"
    by (simp only: books)
  with opf sp ids c show ?thesis by auto
qed

subsection \<open>Spine entries that yield no chapter\<close>



subsection \<open>Missing title, creator and language\<close>



subsection \<open>Failures of the container document\<close>

text \<open>
  Claim C6, as stated, fails: a book without \<open>META-INF/container.xml\<close> makes the merge
  fail with the \<open>TypeError\<close> that JavaScript raises for a property read on \<open>null\<close>, and
  a book whose package document is missing fails with the same \<open>TypeError\<close>. No
  assignment of kinds to the errors thrown can give the first the kind
  \<open>InvalidContainerError\<close> and the second the kind \<open>InvalidPackageDocumentError\<close>.
\<close>

theorem container_error_kind_counterexample:
  "combineEpubs ''u'' [alpha, withoutContainer] = Inl TypeError
   \<and> combineEpubs ''u'' [alpha, withoutPackage] = Inl TypeError
   \<and> \<not> (\<exists>kind.
          (case combineEpubs ''u'' [alpha, withoutContainer] of
             Inl e \<Rightarrow> kind e = InvalidContainerError | Inr out \<Rightarrow> False)
        \<and> (case combineEpubs ''u'' [alpha, withoutPackage] of
             Inl e \<Rightarrow> kind e = InvalidPackageDocumentError | Inr out \<Rightarrow> False))"
proof -
  have o: "map openBook [alpha] = map Inr
      [\<lparr>baseDir = upToLastSlash ''OEBPS/content.opf'', entries = map_of alphaFiles,
        bookMeta = alphaMeta, bookManifest = alphaManifest, bookSpine = alphaSpine\<rparr>]"
    by (simp add: alpha_def openBook_epub)
  have "openBook withoutContainer = Inl TypeError"
    by (simp add: openBook_def withoutContainer_def)
  from processBooks_failure [OF o this, of 0 "[]" "initial ''u''"]
  have c: "combineEpubs ''u'' [alpha, withoutContainer] = Inl TypeError"
    by (simp add: combineEpubs_def merged_def)
  have "openBook withoutPackage = Inl TypeError"
    by (simp add: openBook_def withoutPackage_def)
  from processBooks_failure [OF o this, of 0 "[]" "initial ''u''"]
  have p: "combineEpubs ''u'' [alpha, withoutPackage] = Inl TypeError"
    by (simp add: combineEpubs_def merged_def)
  show ?thesis
    unfolding c p by auto
qed

text \<open>
  Claim C6, amended. A book whose \<open>META-INF/container.xml\<close> is absent, or lacks the
  root-file path, makes the merge fail with a JavaScript \<open>TypeError\<close>; one whose
  container document cannot be parsed makes it fail with the error of the XML parser.
  (This is so when the books before it open; a failure always ends the merge, with no
  output.) The function defines no error kinds of its own: a package document that is
  missing from the archive fails with the same \<open>TypeError\<close> as a missing container.
\<close>

theorem container_failures:
  assumes "map openBook pre = map Inr books"
  shows "(container z = Absent \<or> container z = Parsed None
            \<longrightarrow> combineEpubs uuid (pre @ Zip z # post) = Inl TypeError)
    \<and> (container z = Unparsable
            \<longrightarrow> combineEpubs uuid (pre @ Zip z # post) = Inl XmlError)
    \<and> (container z = Parsed (Some path) \<and> packageAt z path = Absent
            \<longrightarrow> combineEpubs uuid (pre @ Zip z # post) = Inl TypeError)
    \<and> (\<forall>b e. b \<in> set bs \<and> openBook b = Inl e \<longrightarrow> (\<exists>e'. combineEpubs uuid bs = Inl e'))"
proof -
  have fail: "combineEpubs uuid (pre @ Zip z # post) = Inl e" if "openBook (Zip z) = Inl e" for e
    using processBooks_failure [OF assms that, of 0 post "initial uuid"]
    by (simp add: combineEpubs_def merged_def)
  have 1: "combineEpubs uuid (pre @ Zip z # post) = Inl TypeError"
    if "container z = Absent \<or> container z = Parsed None"
    using that by (intro fail) (auto simp: openBook_def)
  have 2: "combineEpubs uuid (pre @ Zip z # post) = Inl XmlError"
    if "container z = Unparsable"
    using that by (intro fail) (simp add: openBook_def)
  have 3: "combineEpubs uuid (pre @ Zip z # post) = Inl TypeError"
    if "container z = Parsed (Some path) \<and> packageAt z path = Absent"
    using that by (intro fail) (simp add: openBook_def)
  have 4: "\<exists>e'. combineEpubs uuid bs = Inl e'" if "b \<in> set bs \<and> openBook b = Inl e" for b e
  proof -
    from that first_failure [of b bs e 0 "initial uuid"]
    obtain e' where "processBooks 0 bs (initial uuid) = Inl e'"
      by blast
    then have "combineEpubs uuid bs = Inl e'"
      by (simp add: combineEpubs_def merged_def)
    then show ?thesis ..
  qed
  from 1 2 3 4 show ?thesis by blast
qed

theorem container_failures_witness:
  "combineEpubs ''u'' ([alpha] @ Zip \<lparr>container = Absent, packageAt = (\<lambda>p. Absent), files = Map.empty\<rparr> # [beta])
     = Inl TypeError
   \<and> combineEpubs ''u'' ([alpha] @ Zip \<lparr>container = Parsed None, packageAt = (\<lambda>p. Absent), files = Map.empty\<rparr> # [beta])
     = Inl TypeError
   \<and> combineEpubs ''u'' ([alpha] @ Zip \<lparr>container = Unparsable, packageAt = (\<lambda>p. Absent), files = Map.empty\<rparr> # [beta])
     = Inl XmlError
   \<and> combineEpubs ''u'' ([alpha] @ Zip \<lparr>container = Parsed (Some ''content.opf''), packageAt = (\<lambda>p. Absent), files = Map.empty\<rparr> # [beta])
     = Inl TypeError
   \<and> (\<exists>e'. combineEpubs ''u'' [alpha, NotZip, beta] = Inl e')"
proof -
  have o: "map openBook [alpha] = map Inr
      [\<lparr>baseDir = upToLastSlash ''OEBPS/content.opf'', entries = map_of alphaFiles,
        bookMeta = alphaMeta, bookManifest = alphaManifest, bookSpine = alphaSpine\<rparr>]"
    by (simp add: alpha_def openBook_epub)
  have n: "NotZip \<in> set [alpha, NotZip, beta] \<and> openBook NotZip = Inl ZipError"
    by (simp add: openBook_def)
  note t = container_failures [OF o, of _ "''u''" "[beta]" "''content.opf''" "[alpha, NotZip, beta]"]
  show ?thesis
    using t [of "\<lparr>container = Absent, packageAt = (\<lambda>p. Absent), files = Map.empty\<rparr>"]
      t [of "\<lparr>container = Parsed None, packageAt = (\<lambda>p. Absent), files = Map.empty\<rparr>"]
      t [of "\<lparr>container = Unparsable, packageAt = (\<lambda>p. Absent), files = Map.empty\<rparr>"]
      t [of "\<lparr>container = Parsed (Some ''content.opf''), packageAt = (\<lambda>p. Absent), files = Map.empty\<rparr>"]
      n
    by simp blast
qed

subsection \<open>Assets of other books\<close>

text \<open>
  Claim C2. The rewritten content of a chapter \<open>C\<close> depends on the images and styles
  of its own book only (the rewriter never reads the fonts). Two lists of images, and
  two lists of styles, that hold the same assets with the book index of \<open>C\<close> give the same
  rewritten chapter; in particular an asset \<open>A\<close> of another book can be put into the
  images or the styles, or taken out, without any change to the result, whatever its
  original path is. For the whole merge: the chapters of book \<open>i\<close> come out the same from
  two runs whose lists of books agree at index \<open>i\<close>, whatever the other books hold.
\<close>

theorem other_books_assets_ignored:
  "(filter (\<lambda>a. bookIndex a = bookIndex C) images' = filter (\<lambda>a. bookIndex a = bookIndex C) images
      \<and> filter (\<lambda>a. bookIndex a = bookIndex C) styles' = filter (\<lambda>a. bookIndex a = bookIndex C) styles
      \<longrightarrow> rewriteChapter images' styles' C = rewriteChapter images styles C)
   \<and> (bookIndex A \<noteq> bookIndex C
      \<longrightarrow> rewriteChapter (xs @ A # ys) styles C = rewriteChapter (xs @ ys) styles C
        \<and> rewriteChapter images (xs @ A # ys) C = rewriteChapter images (xs @ ys) C)
   \<and> (map openBook bs = map Inr books \<and> map openBook bs' = map Inr books'
        \<and> i < length books \<and> i < length books' \<and> books ! i = books' ! i
      \<longrightarrow> (\<exists>w w'. merged uuid bs = Inr w \<and> merged uuid' bs' = Inr w'
            \<and> filter (\<lambda>c. bookIndex c = i) (allChapters w)
              = filter (\<lambda>c. bookIndex c = i) (allChapters w')))"
proof -
  let ?same = "\<lambda>a. bookIndex a = bookIndex C"
  have 1: "rewriteChapter images' styles' C = rewriteChapter images styles C"
    if "filter ?same images' = filter ?same images \<and> filter ?same styles' = filter ?same styles"
    using that
    by (subst rewriteChapter_filter, subst (2) rewriteChapter_filter) simp
  have 2: "rewriteChapter (xs @ A # ys) styles C = rewriteChapter (xs @ ys) styles C
        \<and> rewriteChapter images (xs @ A # ys) C = rewriteChapter images (xs @ ys) C"
    if "bookIndex A \<noteq> bookIndex C"
  proof -
    from that have "filter ?same (xs @ A # ys) = filter ?same (xs @ ys)"
      by simp
    then show ?thesis
      by (subst rewriteChapter_filter, subst (2) rewriteChapter_filter,
          subst (3) rewriteChapter_filter, subst (4) rewriteChapter_filter) simp
  qed
  have own: "filter (\<lambda>c. bookIndex c = i) (allChapters (rewriteReferences (extracted u ks)))
      = map (rewriteChapter (imagesOf i (ks ! i)) (stylesOf i (ks ! i))) (chaptersOf i (ks ! i))"
    if "i < length ks" for u ks
  proof -
    have "filter (\<lambda>c. bookIndex c = i)
        (perBook (\<lambda>j b. map (rewriteChapter (imagesOf j b) (stylesOf j b)) (chaptersOf j b)) 0 ks)
      = (if 0 \<le> i \<and> i < 0 + length ks
         then map (rewriteChapter (imagesOf i (ks ! (i - 0))) (stylesOf i (ks ! (i - 0))))
                (chaptersOf i (ks ! (i - 0)))
         else [])"
      by (rule filter_perBook) (auto dest: bookIndex_in_chaptersOf)
    with that show ?thesis
      unfolding rewritten_chapters by simp
  qed
  have 3: "\<exists>w w'. merged uuid bs = Inr w \<and> merged uuid' bs' = Inr w'
            \<and> filter (\<lambda>c. bookIndex c = i) (allChapters w)
              = filter (\<lambda>c. bookIndex c = i) (allChapters w')"
    if "map openBook bs = map Inr books \<and> map openBook bs' = map Inr books'
        \<and> i < length books \<and> i < length books' \<and> books ! i = books' ! i"
  proof -
    from that have "merged uuid bs = Inr (rewriteReferences (extracted uuid books))"
      "merged uuid' bs' = Inr (rewriteReferences (extracted uuid' books'))"
      by (simp_all add: merged_opened)
    moreover from that
    have "filter (\<lambda>c. bookIndex c = i) (allChapters (rewriteReferences (extracted uuid books)))
        = filter (\<lambda>c. bookIndex c = i) (allChapters (rewriteReferences (extracted uuid' books')))"
      by (simp only: own)
    ultimately show ?thesis
      by blast
  qed
  from 1 2 3 show ?thesis
    by blast
qed

theorem other_books_assets_ignored_witness:
  \<open>bookIndex betaImage \<noteq> bookIndex alphaChapter
   \<and> occursIn (originalHref betaImage) (content alphaChapter)
   \<and> rewriteChapter ([alphaImage] @ betaImage # []) [alphaStyle] alphaChapter
     = rewriteChapter ([alphaImage] @ []) [alphaStyle] alphaChapter
   \<and> content (rewriteChapter [alphaImage, betaImage] [alphaStyle] alphaChapter)
     = ''<link href="../Styles/style_0_s_style.css"/><img src="../Images/img_0_p_pic.jpg"/>''
   \<and> (\<exists>w w'. merged ''u'' [alpha, beta] = Inr w \<and> merged ''v'' [alpha] = Inr w'
        \<and> filter (\<lambda>c. bookIndex c = 0) (allChapters w)
          = filter (\<lambda>c. bookIndex c = 0) (allChapters w'))\<close>
proof -
  let ?A = "\<lparr>baseDir = upToLastSlash ''OEBPS/content.opf'', entries = map_of alphaFiles,
      bookMeta = alphaMeta, bookManifest = alphaManifest, bookSpine = alphaSpine\<rparr>"
  let ?B = "\<lparr>baseDir = upToLastSlash ''content.opf'', entries = map_of betaFiles,
      bookMeta = betaMeta, bookManifest = betaManifest, bookSpine = betaSpine\<rparr>"
  have o: "map openBook [alpha, beta] = map Inr [?A, ?B] \<and> map openBook [alpha] = map Inr [?A]
      \<and> 0 < length [?A, ?B] \<and> 0 < length [?A] \<and> [?A, ?B] ! 0 = [?A] ! 0"
    by (simp add: alpha_def beta_def openBook_epub)
  have b: "bookIndex betaImage \<noteq> bookIndex alphaChapter"
    by (simp add: betaImage_def alphaChapter_def)
  have occ: "occursIn (originalHref betaImage) (content alphaChapter)"
    by code_simp
  have val: \<open>content (rewriteChapter ([alphaImage] @ []) [alphaStyle] alphaChapter)
     = ''<link href="../Styles/style_0_s_style.css"/><img src="../Images/img_0_p_pic.jpg"/>''\<close>
    by code_simp
  note t = other_books_assets_ignored [where C = alphaChapter and A = betaImage
      and xs = "[alphaImage]" and ys = "[]" and styles = "[alphaStyle]" and images = "[alphaImage]"
      and bs = "[alpha, beta]" and books = "[?A, ?B]" and bs' = "[alpha]" and books' = "[?A]"
      and i = 0 and uuid = "''u''" and uuid' = "''v''"]
  from t b have eq: "rewriteChapter ([alphaImage] @ betaImage # []) [alphaStyle] alphaChapter
     = rewriteChapter ([alphaImage] @ []) [alphaStyle] alphaChapter"
    by blast
  from t o have "\<exists>w w'. merged ''u'' [alpha, beta] = Inr w \<and> merged ''v'' [alpha] = Inr w'
        \<and> filter (\<lambda>c. bookIndex c = 0) (allChapters w)
          = filter (\<lambda>c. bookIndex c = 0) (allChapters w')"
    by blast
  with b occ eq val show ?thesis
    by simp
qed

subsection \<open>Ids and target paths\<close>




subsection \<open>What the rewriter replaces\<close>

text \<open>
  Claim C4, as stated, fails. The rewriter has a loop over the images and a loop over
  the styles and none over the fonts: the chapter of Book Gamma names the font
  \<open>face.ttf\<close> of its own book and is left as it was. And the new path is used as the
  replacement string of \<open>replace\<close>, in which a dollar sign can start a replacement
  pattern: for the image \<open>cash$$.png\<close> the text put into the chapter has one dollar sign,
  while the new path of the image has two.
\<close>

theorem rewriter_assets_counterexample:
  \<open>(case merged ''u'' [gamma] of
      Inl e \<Rightarrow> False
    | Inr w \<Rightarrow> map originalHref (allFonts w) = [''face.ttf'']
        \<and> map href (allFonts w) = [''OEBPS/Fonts/font_0_f_face.ttf'']
        \<and> map bookIndex (allFonts w) = [0] \<and> map bookIndex (allChapters w) = [0]
        \<and> map content (allChapters w) = [''<style>@font-face { src: url(face.ttf) }</style>''])
   \<and> (case merged ''u'' [dollars] of
      Inl e \<Rightarrow> False
    | Inr w \<Rightarrow> map originalHref (allImages w) = [''cash$$.png'']
        \<and> map href (allImages w) = [''OEBPS/Images/img_0_p_cash$$.png'']
        \<and> map bookIndex (allImages w) = [0] \<and> map bookIndex (allChapters w) = [0]
        \<and> map content (allChapters w) = [''<img src="../Images/img_0_p_cash$.png"/>''])\<close>
  by code_simp

text \<open>
  Claim C4, amended. For every chapter the rewriter processes the images and then the
  styles of the chapter's own book, in the order of the manifest, and no fonts. Each
  step works on the text as the steps before have left it and replaces the occurrences
  of the asset's original path, found from left to right without overlap, by the asset's
  reference: its target path without \<open>OEBPS/\<close>, behind \<open>../\<close>, which is
  \<open>../Images/\<close> or \<open>../Styles/\<close>, the new id, an underscore and the file name. When the
  reference has no dollar sign, the text is cut at the occurrences into pieces free of
  the original path, and the result is these pieces with the reference between them.
\<close>

theorem rewriter_images_then_styles:
  assumes "map openBook bs = map Inr books"
  shows "\<exists>w. merged uuid bs = Inr w
    \<and> allChapters w
        = perBook (\<lambda>i b. map (\<lambda>C. C\<lparr>content :=
              foldl (\<lambda>s a. replaceAll s (originalHref a) (relativeReference a)) (content C)
                (imagesOf i b @ stylesOf i b)\<rparr>) (chaptersOf i b)) 0 books
    \<and> (\<forall>i b a. a \<in> set (imagesOf i b) \<longrightarrow> bookIndex a = i
          \<and> relativeReference a = ''../Images/'' @ ident a @ ''_'' @ afterLastSlash (originalHref a))
    \<and> (\<forall>i b a. a \<in> set (stylesOf i b) \<longrightarrow> bookIndex a = i
          \<and> relativeReference a = ''../Styles/'' @ ident a @ ''_'' @ afterLastSlash (originalHref a))
    \<and> (\<forall>s p r. p \<noteq> [] \<and> CHR ''$'' \<notin> set r
          \<longrightarrow> (\<exists>us. us \<noteq> [] \<and> s = join p us \<and> replaceAll s p r = join r us
                \<and> (\<forall>u\<in>set us. \<not> occursIn p u)))"
proof -
  let ?w = "rewriteReferences (extracted uuid books)"
  let ?step = "\<lambda>s a. replaceAll s (originalHref a) (relativeReference a)"
  have m: "merged uuid bs = Inr ?w"
    by (rule merged_opened [OF assms])
  have one: "rewriteChapter (imagesOf i b) (stylesOf i b) C
      = C\<lparr>content := foldl ?step (content C) (imagesOf i b @ stylesOf i b)\<rparr>"
    if C: "C \<in> set (chaptersOf i b)" for i b C
  proof -
    have "foldl (rewriteStep C) s (imagesOf i b @ stylesOf i b)
        = foldl ?step s (imagesOf i b @ stylesOf i b)" for s
    proof (rule foldl_cong [OF refl refl])
      fix s a assume "a \<in> set (imagesOf i b @ stylesOf i b)"
      then have "bookIndex a = i" "inContentRoot a"
        by (auto dest: bookIndex_imagesOf bookIndex_stylesOf inContentRoot_imagesOf
            inContentRoot_stylesOf)
      with bookIndex_in_chaptersOf [OF C] show "rewriteStep C s a = ?step s a"
        by (simp add: rewriteStep_same_book replace_contentRoot relativeReference_def)
    qed
    then show ?thesis
      by (simp add: rewriteChapter_def)
  qed
  have per: "map (rewriteChapter (imagesOf i b) (stylesOf i b)) (chaptersOf i b)
      = map (\<lambda>C. C\<lparr>content := foldl ?step (content C) (imagesOf i b @ stylesOf i b)\<rparr>)
          (chaptersOf i b)" for i b
    by (rule map_cong [OF refl]) (rule one)
  have ch: "allChapters ?w
        = perBook (\<lambda>i b. map (\<lambda>C. C\<lparr>content :=
              foldl ?step (content C) (imagesOf i b @ stylesOf i b)\<rparr>) (chaptersOf i b)) 0 books"
    unfolding rewritten_chapters by (rule perBook_cong) (rule per)
  have im: "\<forall>i b a. a \<in> set (imagesOf i b) \<longrightarrow> bookIndex a = i
      \<and> relativeReference a = ''../Images/'' @ ident a @ ''_'' @ afterLastSlash (originalHref a)"
    by (auto simp: relativeReference_def dest!: imagesOf_fields)
  have st: "\<forall>i b a. a \<in> set (stylesOf i b) \<longrightarrow> bookIndex a = i
      \<and> relativeReference a = ''../Styles/'' @ ident a @ ''_'' @ afterLastSlash (originalHref a)"
    by (auto simp: relativeReference_def dest!: stylesOf_fields)
  have cut: "\<forall>s p r. p \<noteq> [] \<and> CHR ''$'' \<notin> set r
      \<longrightarrow> (\<exists>us. us \<noteq> [] \<and> s = join p us \<and> replaceAll s p r = join r us
            \<and> (\<forall>u\<in>set us. \<not> occursIn p u))"
  proof (intro allI impI)
    fix s p r :: string
    assume "p \<noteq> [] \<and> CHR ''$'' \<notin> set r"
    then have "p \<noteq> []" "CHR ''$'' \<notin> set r"
      by simp_all
    from replaceAllFrom_join [OF this, of s "[]"]
    show "\<exists>us. us \<noteq> [] \<and> s = join p us \<and> replaceAll s p r = join r us
        \<and> (\<forall>u\<in>set us. \<not> occursIn p u)"
      unfolding replaceAll_def by blast
  qed
  from m ch im st cut show ?thesis
    by (intro exI [of _ ?w] conjI)
qed

theorem rewriter_images_then_styles_witness:
  \<open>\<exists>w. merged ''u'' [alpha, beta] = Inr w
     \<and> map content (allChapters w)
        = [''<link href="../Styles/style_0_s_style.css"/><img src="../Images/img_0_p_pic.jpg"/>'',
           ''<img src="../Images/img_1_p_pic.jpg"/>'']
     \<and> ''<img src="pic.jpg"/>'' = join ''pic.jpg'' [''<img src="'', ''"/>'']
     \<and> replaceAll ''<img src="pic.jpg"/>'' ''pic.jpg'' ''../Images/img_1_p_pic.jpg''
        = join ''../Images/img_1_p_pic.jpg'' [''<img src="'', ''"/>'']\<close>
proof -
  let ?A = "\<lparr>baseDir = upToLastSlash ''OEBPS/content.opf'', entries = map_of alphaFiles,
      bookMeta = alphaMeta, bookManifest = alphaManifest, bookSpine = alphaSpine\<rparr>"
  let ?B = "\<lparr>baseDir = upToLastSlash ''content.opf'', entries = map_of betaFiles,
      bookMeta = betaMeta, bookManifest = betaManifest, bookSpine = betaSpine\<rparr>"
  have o: "map openBook [alpha, beta] = map Inr [?A, ?B]"
    by (simp add: alpha_def beta_def openBook_epub)
  have v: \<open>map content (perBook (\<lambda>i b. map (\<lambda>C. C\<lparr>content :=
              foldl (\<lambda>s a. replaceAll s (originalHref a) (relativeReference a)) (content C)
                (imagesOf i b @ stylesOf i b)\<rparr>) (chaptersOf i b)) 0 [?A, ?B])
        = [''<link href="../Styles/style_0_s_style.css"/><img src="../Images/img_0_p_pic.jpg"/>'',
           ''<img src="../Images/img_1_p_pic.jpg"/>'']\<close>
    by code_simp
  have j: \<open>''<img src="pic.jpg"/>'' = join ''pic.jpg'' [''<img src="'', ''"/>'']\<close>
    \<open>replaceAll ''<img src="pic.jpg"/>'' ''pic.jpg'' ''../Images/img_1_p_pic.jpg''
        = join ''../Images/img_1_p_pic.jpg'' [''<img src="'', ''"/>'']\<close>
    by code_simp+
  from rewriter_images_then_styles [OF o, of "''u''"] obtain w
    where w: "merged ''u'' [alpha, beta] = Inr w"
      and c: "allChapters w
        = perBook (\<lambda>i b. map (\<lambda>C. C\<lparr>content :=
              foldl (\<lambda>s a. replaceAll s (originalHref a) (relativeReference a)) (content C)
                (imagesOf i b @ stylesOf i b)\<rparr>) (chaptersOf i b)) 0 [?A, ?B]"
    by (elim exE conjE) (rule that)
  from v have \<open>map content (allChapters w)
        = [''<link href="../Styles/style_0_s_style.css"/><img src="../Images/img_0_p_pic.jpg"/>'',
           ''<img src="../Images/img_1_p_pic.jpg"/>'']\<close>
    by (simp only: c)
  with w j show ?thesis
    by (intro exI [of _ w] conjI)
qed

subsection \<open>References of the chapter's own book\<close>

text \<open>
  Claim C5, as stated, fails. In Book Plates the chapter shows the image \<open>11.png\<close>; the
  image \<open>1.png\<close> comes first in the manifest, its original path occurs inside
  \<open>11.png\<close>, and after both steps the chapter contains neither the original path
  \<open>11.png\<close> nor the new reference of that image. A font named in a chapter of its own
  book is not rewritten at all (Book Gamma, here as the second book), and for the image
  \<open>cash$$.png\<close> the chapter does not contain the new reference, which has two dollar
  signs.
\<close>

theorem same_book_reference_counterexample:
  \<open>(case merged ''u'' [numbered] of
      Inl e \<Rightarrow> False
    | Inr w \<Rightarrow> map originalHref (allImages w) = [''1.png'', ''11.png'']
        \<and> map relativeReference (allImages w)
            = [''../Images/img_0_i1_1.png'', ''../Images/img_0_i11_11.png'']
        \<and> map bookIndex (allImages w) = [0, 0] \<and> map bookIndex (allChapters w) = [0]
        \<and> occursIn ''11.png'' ''<img src="11.png"/>''
        \<and> map content (allChapters w) = [''<img src="1../Images/img_0_i1_1.png"/>'']
        \<and> \<not> occursIn ''../Images/img_0_i11_11.png'' ''<img src="1../Images/img_0_i1_1.png"/>'')
   \<and> (case merged ''u'' [alpha, gamma] of
      Inl e \<Rightarrow> False
    | Inr w \<Rightarrow> map originalHref (allFonts w) = [''face.ttf'']
        \<and> map relativeReference (allFonts w) = [''../Fonts/font_1_f_face.ttf'']
        \<and> map bookIndex (allFonts w) = [1] \<and> map bookIndex (allChapters w) = [0, 1]
        \<and> map content (allChapters w)
            = [''<link href="../Styles/style_0_s_style.css"/><img src="../Images/img_0_p_pic.jpg"/>'',
               ''<style>@font-face { src: url(face.ttf) }</style>''])
   \<and> (case merged ''u'' [alpha, dollars] of
      Inl e \<Rightarrow> False
    | Inr w \<Rightarrow> map originalHref (allImages w) = [''pic.jpg'', ''cash$$.png'']
        \<and> map relativeReference (allImages w)
            = [''../Images/img_0_p_pic.jpg'', ''../Images/img_1_p_cash$$.png'']
        \<and> map content (allChapters w)
            = [''<link href="../Styles/style_0_s_style.css"/><img src="../Images/img_0_p_pic.jpg"/>'',
               ''<img src="../Images/img_1_p_cash$.png"/>''])\<close>
  by code_simp

text \<open>
  Claim C5, amended. Let \<open>A\<close> be an image or a style with the book index of the chapter
  \<open>C\<close>, with a target path under \<open>OEBPS/\<close>, a non-empty original path that occurs in the
  content of \<open>C\<close>, and a new reference without a dollar sign. Let no asset of the same
  book that is processed before \<open>A\<close> have an original path that can share characters
  with an occurrence of the original path of \<open>A\<close>, and none that is processed after \<open>A\<close>
  one that can share characters with an occurrence of the new reference of \<open>A\<close>. Then
  the rewritten content of \<open>C\<close> contains the new reference of \<open>A\<close>. At the step of \<open>A\<close>
  the text still contains the original path; the step cuts it at the occurrences found
  into at least two pieces, none of which contains the original path, and puts the new
  reference between the pieces, so what is left of the original path in the text lies
  in or across the references put in.
\<close>

theorem same_book_reference_rewritten:
  assumes "images @ styles = xs @ A # ys"
    and "bookIndex A = bookIndex C" and "inContentRoot A"
    and "originalHref A \<noteq> []" and "occursIn (originalHref A) (content C)"
    and "CHR ''$'' \<notin> set (relativeReference A)"
    and "\<forall>B\<in>set xs. bookIndex B = bookIndex C
           \<longrightarrow> \<not> touches (originalHref B) (originalHref A)"
    and "\<forall>B\<in>set ys. bookIndex B = bookIndex C
           \<longrightarrow> \<not> touches (originalHref B) (relativeReference A)"
  shows "occursIn (relativeReference A) (content (rewriteChapter images styles C))
    \<and> (\<exists>us. 2 \<le> length us
          \<and> foldl (rewriteStep C) (content C) xs = join (originalHref A) us
          \<and> (\<forall>u\<in>set us. \<not> occursIn (originalHref A) u)
          \<and> content (rewriteChapter images styles C)
              = foldl (rewriteStep C) (join (relativeReference A) us) ys)"
proof -
  let ?p = "originalHref A" and ?r = "relativeReference A"
  let ?s = "foldl (rewriteStep C) (content C) xs"
  have all: "content (rewriteChapter images styles C)
      = foldl (rewriteStep C) (rewriteStep C ?s A) ys"
  proof -
    have "content (rewriteChapter images styles C)
        = foldl (rewriteStep C) (content C) (images @ styles)"
      by (simp add: rewriteChapter_def)
    then show ?thesis
      by (simp add: assms(1))
  qed
  have step: "rewriteStep C ?s A = replaceAll ?s ?p ?r"
    using assms(2,3)
    by (simp add: rewriteStep_same_book replace_contentRoot relativeReference_def)
  have before: "occursIn ?p ?s"
    using assms(5,7) by (rule foldl_rewriteStep_keeps)
  from replaceAllFrom_join [OF assms(4,6), of ?s "[]"] obtain us
    where us: "?s = join ?p us" "replaceAll ?s ?p ?r = join ?r us"
      "\<forall>u\<in>set us. \<not> occursIn ?p u" "occursIn ?p ?s \<longrightarrow> 2 \<le> length us"
    unfolding replaceAll_def by blast
  from us(4) before have len: "2 \<le> length us"
    by simp
  then have "occursIn ?r (rewriteStep C ?s A)"
    unfolding step us(2) by (rule occursIn_join)
  then have "occursIn ?r (foldl (rewriteStep C) (rewriteStep C ?s A) ys)"
    using assms(8) by (rule foldl_rewriteStep_keeps)
  then have 1: "occursIn ?r (content (rewriteChapter images styles C))"
    by (simp only: all)
  have "content (rewriteChapter images styles C) = foldl (rewriteStep C) (join ?r us) ys"
    by (simp only: all step us(2))
  with len us(1,3) have "\<exists>us. 2 \<le> length us
          \<and> foldl (rewriteStep C) (content C) xs = join (originalHref A) us
          \<and> (\<forall>u\<in>set us. \<not> occursIn (originalHref A) u)
          \<and> content (rewriteChapter images styles C)
              = foldl (rewriteStep C) (join (relativeReference A) us) ys"
    by (intro exI [of _ us] conjI)
  with 1 show ?thesis ..
qed

theorem same_book_reference_rewritten_witness:
  \<open>[alphaImage, betaImage] @ [alphaStyle] = [] @ alphaImage # [betaImage, alphaStyle]
   \<and> bookIndex alphaImage = bookIndex alphaChapter \<and> inContentRoot alphaImage
   \<and> originalHref alphaImage = ''pic.jpg''
   \<and> occursIn ''pic.jpg'' (content alphaChapter)
   \<and> relativeReference alphaImage = ''../Images/img_0_p_pic.jpg''
   \<and> bookIndex betaImage \<noteq> bookIndex alphaChapter
   \<and> \<not> touches (originalHref alphaStyle) ''../Images/img_0_p_pic.jpg''
   \<and> occursIn ''../Images/img_0_p_pic.jpg''
        (content (rewriteChapter [alphaImage, betaImage] [alphaStyle] alphaChapter))\<close>
proof -
  have h1: "[alphaImage, betaImage] @ [alphaStyle] = [] @ alphaImage # [betaImage, alphaStyle]"
    by simp
  have h2: "bookIndex alphaImage = bookIndex alphaChapter"
    by (simp add: alphaImage_def alphaChapter_def)
  have h3: "inContentRoot alphaImage"
    by code_simp
  have p: "originalHref alphaImage = ''pic.jpg''"
    by (simp add: alphaImage_def)
  then have h4: "originalHref alphaImage \<noteq> []"
    by simp
  have h5: "occursIn (originalHref alphaImage) (content alphaChapter)"
    by code_simp
  have h6: "CHR ''$'' \<notin> set (relativeReference alphaImage)"
    by code_simp
  have r: "relativeReference alphaImage = ''../Images/img_0_p_pic.jpg''"
    by code_simp
  have b: "bookIndex betaImage \<noteq> bookIndex alphaChapter"
    by (simp add: betaImage_def alphaChapter_def)
  have t: "\<not> touches (originalHref alphaStyle) ''../Images/img_0_p_pic.jpg''"
    by code_simp
  have x: "\<forall>B\<in>set []. bookIndex B = bookIndex alphaChapter
      \<longrightarrow> \<not> touches (originalHref B) (originalHref alphaImage)"
    by simp
  have y: "\<forall>B\<in>set [betaImage, alphaStyle]. bookIndex B = bookIndex alphaChapter
      \<longrightarrow> \<not> touches (originalHref B) (relativeReference alphaImage)"
    using b t unfolding r by simp
  from same_book_reference_rewritten [OF h1 h2 h3 h4 h5 h6 x y]
  have "occursIn (relativeReference alphaImage)
      (content (rewriteChapter [alphaImage, betaImage] [alphaStyle] alphaChapter))"
    by (rule conjunct1)
  then have c: "occursIn ''../Images/img_0_p_pic.jpg''
      (content (rewriteChapter [alphaImage, betaImage] [alphaStyle] alphaChapter))"
    unfolding r .
  from h5 have o: "occursIn ''pic.jpg'' (content alphaChapter)"
    unfolding p .
  from h1 h2 h3 p o r b t c show ?thesis
    by (intro conjI)
qed

end
